theory Spec2Isabelle
  imports Main
begin

section \<open>Server objects and the store that holds them\<close>

text \<open>
  The manager keeps its servers in Python lists, and the lists hold references: the loop
  variable \<open>s\<close> of \<open>run\<close>, the entries of \<open>unresponsive_servers\<close> and the entries of the
  two pools may name the same object, \<open>s in self.available_servers\<close> compares by identity
  (the class defines no \<open>__eq__\<close>), and an assignment to a field is seen through every
  alias. So a server is a reference into an explicit store, and a pool is a list of
  references.
\<close>

type_synonym ref = nat

record Server =
  task_arn :: string
  status :: string
  ec2_id :: string
  address :: string
  available_capacity :: int
  ready_to_close :: bool

text \<open>
  \<open>Server.__init__\<close> waits for the task and reads its description through helpers of
  \<open>aws_utils\<close> (\<open>running_task_waiter\<close>, \<open>get_task_description\<close>, \<open>get_ec2_id\<close>,
  \<open>get_exposed_port\<close>, \<open>get_ip\<close>). They talk to AWS; what they answer is a parameter:
  either one of them raises, or they deliver the instance id, the port and the ip.
\<close>

datatype aws_lookup = Lookup_error | Lookup string string string

definition Server_init :: "string \<Rightarrow> aws_lookup \<Rightarrow> Server option" where
  "Server_init arn l =
     (case l of
        Lookup_error \<Rightarrow> None
      | Lookup ec2 port ip \<Rightarrow>
          Some \<lparr>task_arn = arn, status = ''RUNNING'', ec2_id = ec2,
                address = ip @ '':'' @ port, available_capacity = 0,
                ready_to_close = False\<rparr>)"

text \<open>
  What the health endpoint answers to one request: \<open>Unreachable\<close> when
  \<open>requests.get(url).json()\<close> raises (or delivers something that is no dictionary), and
  otherwise the dictionary, of which only the two keys matter; a key may be missing.
  The values are taken to have the types the class annotates (\<open>bool\<close>, \<open>int\<close>).
\<close>

datatype health = Unreachable | Report "bool option" "int option"

text \<open>
  \<open>update_state\<close>: the two assignments run in the source's order, so a dictionary with
  \<open>ready_to_close\<close> and without \<open>available_capacity\<close> changes the flag and then fails.
\<close>

fun update_state :: "Server \<Rightarrow> health \<Rightarrow> Server \<times> bool" where
  "update_state s Unreachable = (s, False)"
| "update_state s (Report None c) = (s, False)"
| "update_state s (Report (Some f) None) = (s\<lparr>ready_to_close := f\<rparr>, False)"
| "update_state s (Report (Some f) (Some c)) =
     (s\<lparr>ready_to_close := f, available_capacity := c\<rparr>, True)"

section \<open>The manager\<close>

text \<open>
  What the manager does to the outside world, in order: the two branch markers it prints
  (\<open>print("Upscale")\<close>, \<open>print("Downscale")\<close>), its calls of the AWS helpers that
  create or destroy something, and its sleep. The other diagnostic prints are left out.
\<close>

datatype event =
    Upscale
  | Downscale
  | Launch_ecs_instance
  | Launch_task
  | Terminate_ec2 string
  | Sleep int

record manager =
  available_servers :: "ref list"
  standby_servers :: "ref list"
  total_available_capacity :: int
  upscale_margin :: int
  downscale_margin :: int
  thread_sleep_time :: int
  heap :: "ref \<Rightarrow> Server"
  next_ref :: ref
  trace :: "event list"

text \<open>
  \<open>heap\<close> is the store, \<open>next_ref\<close> the reference the next constructed \<open>Server\<close> gets,
  \<open>trace\<close> the events so far.
\<close>

text \<open>
  The exceptions of the allocation path. \<open>IndexError\<close> is Python's, raised by a list
  subscript out of range. \<open>NoCapacityAvailable\<close> is the name the specification uses; no
  statement of the source raises it.
\<close>

datatype error = IndexError | NoCapacityAvailable

text \<open>
  What one call of \<open>add_server\<close> meets: \<open>launch_ecs_instance()\<close> raises, or
  \<open>launch_task\<close> raises, or the task is launched and \<open>Server(task)\<close> is constructed
  from what AWS answers.
\<close>

datatype provision = Instance_error | Task_error | Task string aws_lookup

definition add_server :: "manager \<Rightarrow> provision \<Rightarrow> manager \<times> bool" where
  "add_server m p =
     (case p of
        Instance_error \<Rightarrow> (m\<lparr>trace := trace m @ [Launch_ecs_instance]\<rparr>, False)
      | Task_error \<Rightarrow> (m\<lparr>trace := trace m @ [Launch_ecs_instance, Launch_task]\<rparr>, False)
      | Task arn l \<Rightarrow>
          (case Server_init arn l of
             None \<Rightarrow> (m\<lparr>trace := trace m @ [Launch_ecs_instance, Launch_task]\<rparr>, False)
           | Some s \<Rightarrow>
               (m\<lparr>available_servers := available_servers m @ [next_ref m],
                   heap := (heap m)(next_ref m := s),
                   next_ref := Suc (next_ref m),
                   trace := trace m @ [Launch_ecs_instance, Launch_task]\<rparr>, True)))"

text \<open>
  \<open>remove_server\<close> asks AWS to terminate the instance; \<open>terminate_ec2\<close> says whether the
  call returns (\<open>True\<close>) or raises. Neither pool is touched here.
\<close>

definition remove_server :: "(string \<Rightarrow> bool) \<Rightarrow> manager \<Rightarrow> ref \<Rightarrow> manager \<times> bool" where
  "remove_server terminate_ec2 m r =
     (m\<lparr>trace := trace m @ [Terminate_ec2 (ec2_id (heap m r))]\<rparr>,
      terminate_ec2 (ec2_id (heap m r)))"

text \<open>
  \<open>get_available_server_index\<close>: the scan \<open>for i in range(1, len(...))\<close> that keeps the
  index of the greatest capacity seen, replaced only by a strictly greater one.
\<close>

definition scan_step :: "(ref \<Rightarrow> Server) \<Rightarrow> ref list \<Rightarrow> nat \<Rightarrow> nat \<Rightarrow> nat" where
  "scan_step h xs i mx =
     (if available_capacity (h (xs ! i)) > available_capacity (h (xs ! mx)) then i else mx)"

definition get_available_server_index :: "manager \<Rightarrow> nat" where
  "get_available_server_index m =
     fold (scan_step (heap m) (available_servers m)) [1..<length (available_servers m)] 0"

text \<open>
  \<open>get_available_server\<close>: the subscript raises \<open>IndexError\<close> when the index is out of
  range, which is when the list is empty. Otherwise the object's capacity goes down by
  one and the object is returned.
\<close>

definition get_available_server :: "manager \<Rightarrow> error + (manager \<times> ref)" where
  "get_available_server m =
     (let i = get_available_server_index m in
      if i < length (available_servers m) then
        (let r = available_servers m ! i in
         Inr (m\<lparr>heap := (heap m)(r := (heap m r)
                 \<lparr>available_capacity := available_capacity (heap m r) - 1\<rparr>)\<rparr>, r))
      else Inl IndexError)"

section \<open>One pass of the loop of \<open>run\<close>\<close>

text \<open>
  What the outside world answers during one pass: the health response to the poll of the
  \<open>i\<close>-th entry of \<open>available_servers\<close>, of the \<open>i\<close>-th entry of \<open>standby_servers\<close>, and
  to the later re-poll of the \<open>i\<close>-th entry of \<open>unresponsive_servers\<close>; what
  \<open>add_server\<close> meets if it is called; and whether \<open>terminate_ec2\<close> returns.
\<close>

record world =
  available_health :: "nat \<Rightarrow> health"
  standby_health :: "nat \<Rightarrow> health"
  recheck_health :: "nat \<Rightarrow> health"
  provisioning :: provision
  terminate_ec2 :: "string \<Rightarrow> bool"

text \<open>The first loop: poll the available servers and add up their capacities.\<close>

fun poll_available ::
  "ref list \<Rightarrow> (nat \<Rightarrow> health) \<Rightarrow> (ref \<Rightarrow> Server) \<Rightarrow> int \<Rightarrow> ref list \<Rightarrow>
   (ref \<Rightarrow> Server) \<times> int \<times> ref list" where
  "poll_available [] env h n us = (h, n, us)"
| "poll_available (r # rs) env h n us =
     (case update_state (h r) (env 0) of
        (s, ok) \<Rightarrow>
          (let h1 = h(r := s);
               h2 = (if ok then h1 else h1(r := (h1 r)\<lparr>available_capacity := 0\<rparr>));
               us2 = (if ok then us else us @ [r])
           in poll_available rs (\<lambda>i. env (Suc i)) h2 (n + available_capacity (h2 r)) us2))"

text \<open>The second loop: poll the standby servers.\<close>

fun poll_standby ::
  "ref list \<Rightarrow> (nat \<Rightarrow> health) \<Rightarrow> (ref \<Rightarrow> Server) \<Rightarrow> ref list \<Rightarrow>
   (ref \<Rightarrow> Server) \<times> ref list" where
  "poll_standby [] env h us = (h, us)"
| "poll_standby (r # rs) env h us =
     (case update_state (h r) (env 0) of
        (s, ok) \<Rightarrow>
          poll_standby rs (\<lambda>i. env (Suc i)) (h(r := s)) (if ok then us else us @ [r]))"

text \<open>
  The pass up to the assignment \<open>self.total_available_capacity = new_total_available_capacity\<close>,
  with the list of unresponsive servers so far.
\<close>

definition poll_commit :: "manager \<Rightarrow> world \<Rightarrow> manager \<times> ref list" where
  "poll_commit m w =
     (case poll_available (available_servers m) (available_health w) (heap m) 0 [] of
        (h, n, us) \<Rightarrow> (m\<lparr>heap := h, total_available_capacity := n\<rparr>, us))"

definition poll_phase :: "manager \<Rightarrow> world \<Rightarrow> manager \<times> ref list" where
  "poll_phase m w =
     (case poll_commit m w of
        (m1, us1) \<Rightarrow>
          (case poll_standby (standby_servers m1) (standby_health w) (heap m1) us1 of
             (h, us) \<Rightarrow> (m1\<lparr>heap := h\<rparr>, us)))"

text \<open>
  The scaling decision. \<open>pop(0)\<close> is taken on a standby list that is not empty;
  \<open>pop(self.get_available_server_index())\<close> on a list of at least two entries, where
  the index is in range.
\<close>

definition scale_phase :: "manager \<Rightarrow> provision \<Rightarrow> manager" where
  "scale_phase m p =
     (if total_available_capacity m < upscale_margin m then
        (let m1 = m\<lparr>trace := trace m @ [Upscale]\<rparr> in
         case standby_servers m1 of
           [] \<Rightarrow> fst (add_server m1 p)
         | s # rest \<Rightarrow>
             m1\<lparr>standby_servers := rest,
                total_available_capacity :=
                  total_available_capacity m1 + available_capacity (heap m1 s),
                available_servers := available_servers m1 @ [s]\<rparr>)
      else if total_available_capacity m > downscale_margin m
              \<and> length (available_servers m) > 1 then
        (let m1 = m\<lparr>trace := trace m @ [Downscale]\<rparr>;
             i = get_available_server_index m1;
             s = available_servers m1 ! i
         in m1\<lparr>available_servers :=
                  take i (available_servers m1) @ drop (Suc i) (available_servers m1),
                total_available_capacity :=
                  total_available_capacity m1 - available_capacity (heap m1 s),
                standby_servers := standby_servers m1 @ [s]\<rparr>)
      else m)"

text \<open>The loop over the standby servers that terminates those ready to close.\<close>

fun evict :: "ref list \<Rightarrow> (string \<Rightarrow> bool) \<Rightarrow> manager \<Rightarrow> ref list \<Rightarrow> manager \<times> ref list" where
  "evict [] t m remaining = (m, remaining)"
| "evict (r # rs) t m remaining =
     (if ready_to_close (heap m r) then evict rs t (fst (remove_server t m r)) remaining
      else evict rs t m (remaining @ [r]))"

definition evict_phase :: "manager \<Rightarrow> (string \<Rightarrow> bool) \<Rightarrow> manager" where
  "evict_phase m t =
     (case evict (standby_servers m) t m [] of
        (m1, remaining) \<Rightarrow> m1\<lparr>standby_servers := remaining\<rparr>)"

definition sleep :: "manager \<Rightarrow> manager" where
  "sleep m = m\<lparr>trace := trace m @ [Sleep (thread_sleep_time m)]\<rparr>"

text \<open>
  The last loop: the servers that did not answer are polled again; one that fails again
  is taken out of the pool that holds it (\<open>list.remove\<close> drops the first occurrence) and
  its termination is requested.
\<close>

fun grace :: "ref list \<Rightarrow> (nat \<Rightarrow> health) \<Rightarrow> (string \<Rightarrow> bool) \<Rightarrow> manager \<Rightarrow> manager" where
  "grace [] env t m = m"
| "grace (r # rs) env t m =
     (case update_state (heap m r) (env 0) of
        (s, ok) \<Rightarrow>
          (let m1 = m\<lparr>heap := (heap m)(r := s)\<rparr> in
           if ok then grace rs (\<lambda>i. env (Suc i)) t m1
           else
             (let m2 =
                (if r \<in> set (available_servers m1) then
                   m1\<lparr>available_servers := remove1 r (available_servers m1)\<rparr>
                 else if r \<in> set (standby_servers m1) then
                   m1\<lparr>standby_servers := remove1 r (standby_servers m1)\<rparr>
                 else m1)
              in grace rs (\<lambda>i. env (Suc i)) t (fst (remove_server t m2 r)))))"

definition cycle :: "manager \<Rightarrow> world \<Rightarrow> manager" where
  "cycle m w =
     (case poll_phase m w of
        (m1, unresponsive_servers) \<Rightarrow>
          grace unresponsive_servers (recheck_health w) (terminate_ec2 w)
            (sleep (evict_phase (scale_phase m1 (provisioning w)) (terminate_ec2 w))))"

text \<open>
  \<open>run\<close> is \<open>while(True)\<close> around the pass and never returns; \<open>run n\<close> is the state after
  \<open>n\<close> passes, the \<open>k\<close>-th in the world \<open>ws k\<close>.
\<close>

fun run :: "nat \<Rightarrow> (nat \<Rightarrow> world) \<Rightarrow> manager \<Rightarrow> manager" where
  "run 0 ws m = m"
| "run (Suc n) ws m = run n (\<lambda>k. ws (Suc k)) (cycle m (ws 0))"

section \<open>Notions used to state the properties\<close>

text \<open>
  Whether a response makes \<open>update_state\<close> return \<open>True\<close>, and the capacity a poll of
  the first loop adds to the sum: the reported one, or 0 after a failure.
\<close>

fun poll_ok :: "health \<Rightarrow> bool" where
  "poll_ok (Report (Some f) (Some c)) = True"
| "poll_ok _ = False"

fun contribution :: "health \<Rightarrow> int" where
  "contribution (Report (Some f) (Some c)) = c"
| "contribution _ = 0"

text \<open>
  The entries of a list whose poll fails, in the order of the list: what one polling
  loop appends to \<open>unresponsive_servers\<close>. And an object after its poll in the first
  loop, where a failure sets the capacity to 0.
\<close>

fun failures :: "ref list \<Rightarrow> (nat \<Rightarrow> health) \<Rightarrow> ref list" where
  "failures [] env = []"
| "failures (r # rs) env =
     (if poll_ok (env 0) then [] else [r]) @ failures rs (\<lambda>i. env (Suc i))"

definition polled :: "Server \<Rightarrow> health \<Rightarrow> Server" where
  "polled s x =
     (if poll_ok x then fst (update_state s x)
      else (fst (update_state s x))\<lparr>available_capacity := 0\<rparr>)"

text \<open>
  One round of the last loop, written without the intermediate names (\<open>grace_Cons\<close>
  below shows that the loop is made of these rounds), and the state in which the pass
  wakes up from its sleep, before that loop.
\<close>

definition recheck :: "ref \<Rightarrow> health \<Rightarrow> manager \<Rightarrow> manager" where
  "recheck r x m =
     (if poll_ok x then m\<lparr>heap := (heap m)(r := fst (update_state (heap m r) x))\<rparr>
      else
        m\<lparr>heap := (heap m)(r := fst (update_state (heap m r) x)),
          available_servers :=
            (if r \<in> set (available_servers m) then remove1 r (available_servers m)
             else available_servers m),
          standby_servers :=
            (if r \<notin> set (available_servers m) \<and> r \<in> set (standby_servers m)
             then remove1 r (standby_servers m) else standby_servers m),
          trace := trace m @ [Terminate_ec2 (ec2_id (heap m r))]\<rparr>)"

definition before_recheck :: "manager \<Rightarrow> world \<Rightarrow> manager" where
  "before_recheck m w =
     sleep (evict_phase (scale_phase (fst (poll_phase m w)) (provisioning w)) (terminate_ec2 w))"

text \<open>
  Every entry of the two pools is an object of its own (each comes from one call of the
  constructor and is moved, never copied), and was constructed before \<open>next_ref\<close>.
\<close>

definition pools_wf :: "manager \<Rightarrow> bool" where
  "pools_wf m \<longleftrightarrow>
     distinct (available_servers m @ standby_servers m)
     \<and> list_all (\<lambda>r. r < next_ref m) (available_servers m @ standby_servers m)"

text \<open>
  No server of either pool has a negative capacity; a response reports no negative
  capacity; no response of a pass does.
\<close>

definition nonneg_pools :: "manager \<Rightarrow> bool" where
  "nonneg_pools m \<longleftrightarrow>
     list_all (\<lambda>r. 0 \<le> available_capacity (heap m r))
       (available_servers m @ standby_servers m)"

fun nonneg_health :: "health \<Rightarrow> bool" where
  "nonneg_health (Report f (Some c)) = (0 \<le> c)"
| "nonneg_health _ = True"

definition nonneg_world :: "world \<Rightarrow> bool" where
  "nonneg_world w \<longleftrightarrow>
     (\<forall>i. nonneg_health (available_health w i) \<and> nonneg_health (standby_health w i)
          \<and> nonneg_health (recheck_health w i))"

section \<open>Example states\<close>

text \<open>
  A manager with margins 2 and 10 whose store holds, at reference \<open>r\<close>, a server of
  capacity \<open>cs ! r\<close>; and a world that answers the polls with the listed responses (no
  answer beyond the list) and lets every termination succeed.
\<close>

definition example_server :: "string \<Rightarrow> int \<Rightarrow> bool \<Rightarrow> Server" where
  "example_server ec2 c f =
     \<lparr>task_arn = ''arn-'' @ ec2, status = ''RUNNING'', ec2_id = ec2,
      address = ''10.0.0.1:8000'', available_capacity = c, ready_to_close = f\<rparr>"

definition example_heap :: "int list \<Rightarrow> ref \<Rightarrow> Server" where
  "example_heap cs r =
     example_server (if r < 4 then [''i-0'', ''i-1'', ''i-2'', ''i-3''] ! r else ''i-x'')
       (if r < length cs then cs ! r else 0) False"

definition example_manager :: "ref list \<Rightarrow> ref list \<Rightarrow> int list \<Rightarrow> manager" where
  "example_manager av sb cs =
     \<lparr>available_servers = av, standby_servers = sb, total_available_capacity = 0,
      upscale_margin = 2, downscale_margin = 10, thread_sleep_time = 30,
      heap = example_heap cs, next_ref = length cs, trace = []\<rparr>"

definition responses :: "health list \<Rightarrow> nat \<Rightarrow> health" where
  "responses hs i = (if i < length hs then hs ! i else Unreachable)"

definition example_world :: "health list \<Rightarrow> health list \<Rightarrow> health list \<Rightarrow> provision \<Rightarrow> world" where
  "example_world ha hs hr p =
     \<lparr>available_health = responses ha, standby_health = responses hs,
      recheck_health = responses hr, provisioning = p, terminate_ec2 = (\<lambda>_. True)\<rparr>"

text \<open>States just before the scaling decision: above the band, and below it.\<close>

definition loaded_pair :: manager where
  "loaded_pair = (example_manager [0, 1] [] [8, 9])\<lparr>total_available_capacity := 17\<rparr>"

definition starved_with_standby :: manager where
  "starved_with_standby = (example_manager [0] [1] [1, 5])\<lparr>total_available_capacity := 1\<rparr>"

definition starved_alone :: manager where
  "starved_alone = (example_manager [0] [] [1])\<lparr>total_available_capacity := 1\<rparr>"

text \<open>States at the start of a pass, with the world of that pass.\<close>

definition silent_pair :: manager where
  "silent_pair = example_manager [0] [1] [3, 5]"

definition silence :: world where
  "silence = example_world [Unreachable] [Unreachable]
     [Report (Some False) (Some 1), Report (Some False) (Some 1)] Instance_error"

definition flaky_fleet :: manager where
  "flaky_fleet = example_manager [0, 1] [2] [4, 4, 4]"

definition flaky_world :: world where
  "flaky_world = example_world [Unreachable, Report None (Some 7)]
     [Report (Some False) (Some 4)]
     [Unreachable, Report (Some False) (Some 3)] Instance_error"

definition in_band :: manager where
  "in_band = (example_manager [0, 1] [2] [3, 2, 4])\<lparr>total_available_capacity := 5\<rparr>"

definition idle_server :: manager where
  "idle_server = example_manager [0] [] [0]"

section \<open>The scan for the greatest capacity\<close>

lemma scan_fold:
  assumes "1 \<le> n"
  shows "fold (scan_step h xs) [1..<n] 0 < n
     \<and> (\<forall>k<n. available_capacity (h (xs ! k))
            \<le> available_capacity (h (xs ! fold (scan_step h xs) [1..<n] 0)))
     \<and> (\<forall>k<fold (scan_step h xs) [1..<n] 0. available_capacity (h (xs ! k))
            < available_capacity (h (xs ! fold (scan_step h xs) [1..<n] 0)))"
  using assms
proof (induction n)
  case 0
  then show ?case by simp
next
  case (Suc n)
  show ?case
  proof (cases "n = 0")
    case True
    then show ?thesis by simp
  next
    case False
    then have n1: "1 \<le> n" by simp
    let ?j = "fold (scan_step h xs) [1..<n] 0"
    have up: "[1..<Suc n] = [1..<n] @ [n]" using n1 by simp
    have step: "fold (scan_step h xs) [1..<Suc n] 0 = scan_step h xs n ?j"
      by (simp only: up fold_append fold_simps comp_apply)
    from Suc.IH [OF n1] have a: "?j < n"
      and b: "\<forall>k<n. available_capacity (h (xs ! k)) \<le> available_capacity (h (xs ! ?j))"
      and c: "\<forall>k<?j. available_capacity (h (xs ! k)) < available_capacity (h (xs ! ?j))"
      by blast+
    show ?thesis
    proof (cases "available_capacity (h (xs ! n)) > available_capacity (h (xs ! ?j))")
      case True
      then have e: "fold (scan_step h xs) [1..<Suc n] 0 = n"
        by (simp only: step scan_step_def if_True)
      have "\<forall>k<Suc n. available_capacity (h (xs ! k)) \<le> available_capacity (h (xs ! n))"
        using b True by (metis less_Suc_eq less_le_not_le linorder_le_cases order_trans)
      moreover have "\<forall>k<n. available_capacity (h (xs ! k)) < available_capacity (h (xs ! n))"
        using b True by (meson le_less_trans)
      ultimately show ?thesis unfolding e by simp
    next
      case False
      then have e: "fold (scan_step h xs) [1..<Suc n] 0 = ?j"
        by (simp only: step scan_step_def if_False)
      have "\<forall>k<Suc n. available_capacity (h (xs ! k)) \<le> available_capacity (h (xs ! ?j))"
        using b False by (metis less_Suc_eq not_less)
      then show ?thesis unfolding e using a c by simp
    qed
  qed
qed

lemma index_less:
  "available_servers m \<noteq> [] \<Longrightarrow> get_available_server_index m < length (available_servers m)"
  using scan_fold [of "length (available_servers m)" "heap m" "available_servers m"]
  by (simp add: get_available_server_index_def Suc_le_eq)

lemma index_greatest:
  assumes "available_servers m \<noteq> []" and "k < length (available_servers m)"
  shows "available_capacity (heap m (available_servers m ! k))
     \<le> available_capacity (heap m (available_servers m ! get_available_server_index m))"
  using scan_fold [of "length (available_servers m)" "heap m" "available_servers m"] assms
  by (simp add: get_available_server_index_def Suc_le_eq)

lemma index_first:
  assumes "available_servers m \<noteq> []" and "k < get_available_server_index m"
  shows "available_capacity (heap m (available_servers m ! k))
     < available_capacity (heap m (available_servers m ! get_available_server_index m))"
  using scan_fold [of "length (available_servers m)" "heap m" "available_servers m"] assms
  by (simp add: get_available_server_index_def Suc_le_eq)

section \<open>Allocation\<close>

text \<open>
  C3. On a pool that is not empty, \<open>get_available_server\<close> returns the entry at an index
  \<open>i\<close> of the available list whose capacity is the greatest of the list and strictly
  greater than that of every earlier entry (the first occurrence of the maximum), and
  the returned object's capacity is one less than before. If some available server has
  a positive capacity, the capacity of the returned one was positive before the
  decrement.
\<close>

theorem get_available_server_selects_max:
  assumes "available_servers m \<noteq> []"
  shows "\<exists>m' i. get_available_server m = Inr (m', available_servers m ! i)
     \<and> i < length (available_servers m)
     \<and> (\<forall>k<length (available_servers m).
           available_capacity (heap m (available_servers m ! k))
             \<le> available_capacity (heap m (available_servers m ! i)))
     \<and> (\<forall>k<i. available_capacity (heap m (available_servers m ! k))
             < available_capacity (heap m (available_servers m ! i)))
     \<and> available_capacity (heap m' (available_servers m ! i))
          = available_capacity (heap m (available_servers m ! i)) - 1
     \<and> ((\<exists>r\<in>set (available_servers m). 0 < available_capacity (heap m r))
          \<longrightarrow> 0 < available_capacity (heap m (available_servers m ! i)))"
proof -
  let ?xs = "available_servers m"
  let ?i = "get_available_server_index m"
  have lt: "?i < length ?xs" by (rule index_less [OF assms])
  have mx: "\<forall>k<length ?xs. available_capacity (heap m (?xs ! k))
               \<le> available_capacity (heap m (?xs ! ?i))"
    using index_greatest [OF assms] by blast
  have first: "\<forall>k<?i. available_capacity (heap m (?xs ! k))
               < available_capacity (heap m (?xs ! ?i))"
    using index_first [OF assms] by blast
  let ?r = "?xs ! ?i"
  let ?m' = "m\<lparr>heap := (heap m)(?r := (heap m ?r)
                 \<lparr>available_capacity := available_capacity (heap m ?r) - 1\<rparr>)\<rparr>"
  have ret: "get_available_server m = Inr (?m', ?r)"
    using lt by (simp add: get_available_server_def Let_def)
  have dec: "available_capacity (heap ?m' ?r) = available_capacity (heap m ?r) - 1"
    by simp
  have pos: "(\<exists>r\<in>set ?xs. 0 < available_capacity (heap m r))
          \<longrightarrow> 0 < available_capacity (heap m ?r)"
  proof
    assume "\<exists>r\<in>set ?xs. 0 < available_capacity (heap m r)"
    then obtain k where "k < length ?xs" "0 < available_capacity (heap m (?xs ! k))"
      by (auto simp: in_set_conv_nth)
    with mx show "0 < available_capacity (heap m ?r)" by fastforce
  qed
  from ret lt mx first dec pos show ?thesis by blast
qed

theorem get_available_server_selects_max_witness:
  "available_servers (example_manager [0, 1, 2] [] [3, 7, 7]) \<noteq> []
   \<and> (\<exists>m' i. get_available_server (example_manager [0, 1, 2] [] [3, 7, 7])
         = Inr (m', available_servers (example_manager [0, 1, 2] [] [3, 7, 7]) ! i)
     \<and> i < length (available_servers (example_manager [0, 1, 2] [] [3, 7, 7]))
     \<and> (\<forall>k<length (available_servers (example_manager [0, 1, 2] [] [3, 7, 7])).
           available_capacity (heap (example_manager [0, 1, 2] [] [3, 7, 7])
              (available_servers (example_manager [0, 1, 2] [] [3, 7, 7]) ! k))
             \<le> available_capacity (heap (example_manager [0, 1, 2] [] [3, 7, 7])
                  (available_servers (example_manager [0, 1, 2] [] [3, 7, 7]) ! i)))
     \<and> (\<forall>k<i. available_capacity (heap (example_manager [0, 1, 2] [] [3, 7, 7])
              (available_servers (example_manager [0, 1, 2] [] [3, 7, 7]) ! k))
             < available_capacity (heap (example_manager [0, 1, 2] [] [3, 7, 7])
                  (available_servers (example_manager [0, 1, 2] [] [3, 7, 7]) ! i)))
     \<and> available_capacity (heap m' (available_servers (example_manager [0, 1, 2] [] [3, 7, 7]) ! i))
          = available_capacity (heap (example_manager [0, 1, 2] [] [3, 7, 7])
              (available_servers (example_manager [0, 1, 2] [] [3, 7, 7]) ! i)) - 1
     \<and> 0 < available_capacity (heap (example_manager [0, 1, 2] [] [3, 7, 7])
              (available_servers (example_manager [0, 1, 2] [] [3, 7, 7]) ! i)))
   \<and> (\<exists>r\<in>set (available_servers (example_manager [0, 1, 2] [] [3, 7, 7])).
         0 < available_capacity (heap (example_manager [0, 1, 2] [] [3, 7, 7]) r))"
proof -
  let ?m = "example_manager [0, 1, 2] [] [3, 7, 7]"
  have ne: "available_servers ?m \<noteq> []" by (simp add: example_manager_def)
  have pos: "\<exists>r\<in>set (available_servers ?m). 0 < available_capacity (heap ?m r)"
    by (simp add: example_manager_def example_heap_def example_server_def)
  from get_available_server_selects_max [OF ne] ne pos show ?thesis by blast
qed

text \<open>
  C10. On a pool that is not empty, \<open>get_available_server\<close> changes one thing: the
  capacity of the returned object, by \<open>-1\<close>. Both pools, the aggregate
  \<open>total_available_capacity\<close>, the margins, every other object and every other field of
  the returned object are as before.
\<close>

theorem get_available_server_frame:
  assumes "available_servers m \<noteq> []"
  shows "\<exists>m' r. get_available_server m = Inr (m', r)
     \<and> r \<in> set (available_servers m)
     \<and> m' = m\<lparr>heap := (heap m)(r := (heap m r)
                 \<lparr>available_capacity := available_capacity (heap m r) - 1\<rparr>)\<rparr>
     \<and> available_servers m' = available_servers m
     \<and> standby_servers m' = standby_servers m
     \<and> total_available_capacity m' = total_available_capacity m
     \<and> (\<forall>q. q \<noteq> r \<longrightarrow> heap m' q = heap m q)
     \<and> available_capacity (heap m' r) = available_capacity (heap m r) - 1
     \<and> task_arn (heap m' r) = task_arn (heap m r)
     \<and> address (heap m' r) = address (heap m r)
     \<and> status (heap m' r) = status (heap m r)
     \<and> ec2_id (heap m' r) = ec2_id (heap m r)
     \<and> ready_to_close (heap m' r) = ready_to_close (heap m r)
     \<and> upscale_margin m' = upscale_margin m
     \<and> downscale_margin m' = downscale_margin m
     \<and> trace m' = trace m"
  using index_less [OF assms]
  by (simp add: get_available_server_def Let_def)

theorem get_available_server_frame_witness:
  "available_servers (example_manager [0, 1] [2] [8, 9, 4]) \<noteq> []
   \<and> (\<exists>m' r. get_available_server (example_manager [0, 1] [2] [8, 9, 4]) = Inr (m', r)
        \<and> available_servers m' = [0, 1] \<and> standby_servers m' = [2]
        \<and> total_available_capacity m' = 0
        \<and> available_capacity (heap m' r)
            = available_capacity (heap (example_manager [0, 1] [2] [8, 9, 4]) r) - 1)"
proof -
  let ?m = "example_manager [0, 1] [2] [8, 9, 4]"
  have ne: "available_servers ?m \<noteq> []" by (simp add: example_manager_def)
  from get_available_server_frame [OF ne]
  obtain m' r where "get_available_server ?m = Inr (m', r)"
    and "available_servers m' = available_servers ?m"
    and "standby_servers m' = standby_servers ?m"
    and "total_available_capacity m' = total_available_capacity ?m"
    and "available_capacity (heap m' r) = available_capacity (heap ?m r) - 1"
    by blast
  then have "get_available_server ?m = Inr (m', r)
        \<and> available_servers m' = [0, 1] \<and> standby_servers m' = [2]
        \<and> total_available_capacity m' = 0
        \<and> available_capacity (heap m' r) = available_capacity (heap ?m r) - 1"
    by (simp add: example_manager_def)
  with ne show ?thesis by blast
qed

text \<open>
  C7. On an empty pool the scan returns index 0 and the subscript
  \<open>self.available_servers[0]\<close> raises Python's \<open>IndexError\<close>: that is the exception the
  call fails with, and nothing is returned.
\<close>

theorem get_available_server_empty:
  "available_servers m = [] \<Longrightarrow> get_available_server m = Inl IndexError"
  by (simp add: get_available_server_def get_available_server_index_def)

theorem get_available_server_empty_witness:
  "available_servers (example_manager [] [] []) = []
   \<and> get_available_server (example_manager [] [] []) = Inl IndexError"
proof -
  have e: "available_servers (example_manager [] [] []) = []"
    by (simp add: example_manager_def)
  from get_available_server_empty [OF e] e show ?thesis by blast
qed

theorem get_available_server_empty_counterexample:
  "get_available_server (example_manager [] [] []) \<noteq> Inl NoCapacityAvailable"
  by (simp add: get_available_server_def get_available_server_index_def example_manager_def)

section \<open>Facts about the phases of a pass\<close>

lemma update_state_ok [simp]: "snd (update_state s x) = poll_ok x"
  by (cases "(s, x)" rule: update_state.cases) simp_all

lemma update_state_static [simp]:
  "ec2_id (fst (update_state s x)) = ec2_id s"
  "status (fst (update_state s x)) = status s"
  "task_arn (fst (update_state s x)) = task_arn s"
  "address (fst (update_state s x)) = address s"
  by (cases "(s, x)" rule: update_state.cases; simp)+

lemma update_state_capacity:
  "poll_ok x \<Longrightarrow> available_capacity (fst (update_state s x)) = contribution x"
  by (cases "(s, x)" rule: update_state.cases) simp_all

lemma remove_server_fields [simp]:
  "available_servers (fst (remove_server t m r)) = available_servers m"
  "standby_servers (fst (remove_server t m r)) = standby_servers m"
  "total_available_capacity (fst (remove_server t m r)) = total_available_capacity m"
  "heap (fst (remove_server t m r)) = heap m"
  "next_ref (fst (remove_server t m r)) = next_ref m"
  "upscale_margin (fst (remove_server t m r)) = upscale_margin m"
  "downscale_margin (fst (remove_server t m r)) = downscale_margin m"
  "thread_sleep_time (fst (remove_server t m r)) = thread_sleep_time m"
  "trace (fst (remove_server t m r)) = trace m @ [Terminate_ec2 (ec2_id (heap m r))]"
  by (simp_all add: remove_server_def)

lemma evict_eq:
  "evict rs t m remaining =
     (m\<lparr>trace := trace m
          @ map (\<lambda>r. Terminate_ec2 (ec2_id (heap m r)))
              (filter (\<lambda>r. ready_to_close (heap m r)) rs)\<rparr>,
      remaining @ filter (\<lambda>r. \<not> ready_to_close (heap m r)) rs)"
proof (induction rs arbitrary: m remaining)
  case Nil
  show ?case by simp
next
  case (Cons r rs)
  show ?case
  proof (cases "ready_to_close (heap m r)")
    case True
    have "fst (remove_server t m r) = m\<lparr>trace := trace m @ [Terminate_ec2 (ec2_id (heap m r))]\<rparr>"
      by (simp add: remove_server_def)
    with True show ?thesis by (simp add: Cons.IH)
  next
    case False
    then show ?thesis by (simp add: Cons.IH)
  qed
qed

lemma evict_phase_eq:
  "evict_phase m t =
     m\<lparr>trace := trace m
          @ map (\<lambda>r. Terminate_ec2 (ec2_id (heap m r)))
              (filter (\<lambda>r. ready_to_close (heap m r)) (standby_servers m)),
       standby_servers := filter (\<lambda>r. \<not> ready_to_close (heap m r)) (standby_servers m)\<rparr>"
  by (simp add: evict_phase_def evict_eq)

lemma count_list_map_terminate [simp]:
  "count_list (map (\<lambda>r. Terminate_ec2 (f r)) rs) Launch_ecs_instance = 0"
  by (induction rs) simp_all

lemma count_list_append': "count_list (xs @ ys) x = count_list xs x + count_list ys x"
  by (induction xs) simp_all

lemma grace_launches:
  "count_list (trace (grace us env t m)) Launch_ecs_instance
     = count_list (trace m) Launch_ecs_instance"
proof (induction us arbitrary: env m)
  case Nil
  show ?case by simp
next
  case (Cons r rs)
  show ?case
    by (cases "update_state (heap m r) (env 0)")
      (simp add: Let_def Cons.IH count_list_append')
qed

lemma poll_available_fields:
  "poll_phase m w = (m', us) \<Longrightarrow>
     available_servers m' = available_servers m \<and> standby_servers m' = standby_servers m
     \<and> trace m' = trace m \<and> next_ref m' = next_ref m
     \<and> upscale_margin m' = upscale_margin m \<and> downscale_margin m' = downscale_margin m
     \<and> thread_sleep_time m' = thread_sleep_time m"
  by (auto simp: poll_phase_def poll_commit_def split: prod.splits)

lemma scale_phase_launches:
  "count_list (trace (scale_phase m p)) Launch_ecs_instance
     = count_list (trace m) Launch_ecs_instance
       + (if total_available_capacity m < upscale_margin m \<and> standby_servers m = []
          then 1 else 0)"
  by (auto simp: scale_phase_def Let_def add_server_def count_list_append'
      split: list.splits provision.splits option.splits)

lemma cycle_launches:
  "count_list (trace (cycle m w)) Launch_ecs_instance
     = count_list (trace m) Launch_ecs_instance
       + (if total_available_capacity (fst (poll_phase m w)) < upscale_margin m
             \<and> standby_servers m = []
          then 1 else 0)"
proof -
  obtain m1 us where pp: "poll_phase m w = (m1, us)" by (cases "poll_phase m w")
  note f = poll_available_fields [OF pp]
  show ?thesis
    using f
    by (simp add: cycle_def pp grace_launches sleep_def evict_phase_eq count_list_append'
        scale_phase_launches)
qed

section \<open>The scaling decision\<close>

text \<open>
  The branches of the scaling decision, each as the exact result state, with the
  condition under which the phase yields it.
\<close>

lemma scale_phase_upscale_marker:
  "total_available_capacity m < upscale_margin m
      \<longleftrightarrow> (\<exists>evs. trace (scale_phase m p) = trace m @ Upscale # evs)"
  by (auto simp: scale_phase_def Let_def add_server_def
      split: list.splits provision.splits option.splits)

lemma scale_phase_downscale_marker:
  "(\<not> total_available_capacity m < upscale_margin m
        \<and> total_available_capacity m > downscale_margin m
        \<and> 2 \<le> length (available_servers m))
      \<longleftrightarrow> trace (scale_phase m p) = trace m @ [Downscale]"
  by (auto simp: scale_phase_def Let_def add_server_def
      split: list.splits provision.splits option.splits)

lemma add_server_trace:
  "\<exists>evs. trace (fst (add_server m p)) = trace m @ Launch_ecs_instance # evs"
  by (auto simp: add_server_def split: provision.splits option.splits)

lemma scale_phase_provision:
  assumes "standby_servers m = []"
  shows "total_available_capacity m < upscale_margin m
     \<longleftrightarrow> scale_phase m p = fst (add_server (m\<lparr>trace := trace m @ [Upscale]\<rparr>) p)"
proof
  assume "total_available_capacity m < upscale_margin m"
  with assms show "scale_phase m p = fst (add_server (m\<lparr>trace := trace m @ [Upscale]\<rparr>) p)"
    by (simp add: scale_phase_def Let_def)
next
  assume e: "scale_phase m p = fst (add_server (m\<lparr>trace := trace m @ [Upscale]\<rparr>) p)"
  from add_server_trace [of "m\<lparr>trace := trace m @ [Upscale]\<rparr>" p]
  obtain evs where "trace (fst (add_server (m\<lparr>trace := trace m @ [Upscale]\<rparr>) p))
      = trace m @ Upscale # Launch_ecs_instance # evs"
    by auto
  with e have "\<exists>evs. trace (scale_phase m p) = trace m @ Upscale # evs" by simp
  then show "total_available_capacity m < upscale_margin m"
    by (simp add: scale_phase_upscale_marker [symmetric])
qed

lemma scale_phase_recall:
  assumes "standby_servers m = s # rest"
  shows "total_available_capacity m < upscale_margin m
     \<longleftrightarrow> scale_phase m p =
           m\<lparr>trace := trace m @ [Upscale],
             standby_servers := rest,
             total_available_capacity :=
               total_available_capacity m + available_capacity (heap m s),
             available_servers := available_servers m @ [s]\<rparr>"
    (is "?c \<longleftrightarrow> scale_phase m p = ?m'")
proof
  assume ?c
  with assms show "scale_phase m p = ?m'" by (simp add: scale_phase_def Let_def)
next
  assume e: "scale_phase m p = ?m'"
  have "trace ?m' = trace m @ Upscale # []" by simp
  with e have "\<exists>evs. trace (scale_phase m p) = trace m @ Upscale # evs" by simp
  then show ?c by (simp add: scale_phase_upscale_marker [symmetric])
qed

lemma scale_phase_downscale:
  "(\<not> total_available_capacity m < upscale_margin m
        \<and> total_available_capacity m > downscale_margin m
        \<and> 2 \<le> length (available_servers m))
     \<longleftrightarrow> scale_phase m p =
          m\<lparr>trace := trace m @ [Downscale],
            available_servers :=
              take (get_available_server_index m) (available_servers m)
                @ drop (Suc (get_available_server_index m)) (available_servers m),
            total_available_capacity :=
              total_available_capacity m - available_capacity
                (heap m (available_servers m ! get_available_server_index m)),
            standby_servers :=
              standby_servers m @ [available_servers m ! get_available_server_index m]\<rparr>"
    (is "?c \<longleftrightarrow> scale_phase m p = ?m'")
proof
  assume c: ?c
  have idx: "get_available_server_index (m\<lparr>trace := t\<rparr>) = get_available_server_index m"
    for t by (simp add: get_available_server_index_def)
  from c show "scale_phase m p = ?m'"
    by (simp add: scale_phase_def Let_def idx)
next
  assume e: "scale_phase m p = ?m'"
  have "trace ?m' = trace m @ [Downscale]" by simp
  with e have "trace (scale_phase m p) = trace m @ [Downscale]" by simp
  then show ?c by (simp add: scale_phase_downscale_marker [symmetric])
qed

lemma scale_phase_idle:
  "(\<not> total_available_capacity m < upscale_margin m
      \<and> \<not> (total_available_capacity m > downscale_margin m
            \<and> 2 \<le> length (available_servers m)))
     \<longleftrightarrow> scale_phase m p = m"
proof
  assume "\<not> total_available_capacity m < upscale_margin m
      \<and> \<not> (total_available_capacity m > downscale_margin m
            \<and> 2 \<le> length (available_servers m))"
  then show "scale_phase m p = m" by (auto simp: scale_phase_def)
next
  assume e: "scale_phase m p = m"
  then have t: "trace (scale_phase m p) = trace m" by simp
  have "\<not> total_available_capacity m < upscale_margin m"
    using t by (simp add: scale_phase_upscale_marker [of m p])
  moreover have "\<not> (\<not> total_available_capacity m < upscale_margin m
        \<and> total_available_capacity m > downscale_margin m
        \<and> 2 \<le> length (available_servers m))"
    using t by (simp add: scale_phase_downscale_marker [of m p])
  ultimately show "\<not> total_available_capacity m < upscale_margin m
      \<and> \<not> (total_available_capacity m > downscale_margin m
            \<and> 2 \<le> length (available_servers m))"
    by blast
qed

lemma scale_phase_launch_iff:
  "count_list (trace (scale_phase m p)) Launch_ecs_instance
       = count_list (trace m) Launch_ecs_instance + 1
     \<longleftrightarrow> total_available_capacity m < upscale_margin m \<and> standby_servers m = []"
  by (simp add: scale_phase_launches)

text \<open>
  C2. The upscale action is taken exactly when the aggregate is below \<open>upscale_margin\<close>:
  the phase prints \<open>Upscale\<close> exactly then, and its result is that of \<open>add_server\<close> (if
  no server is in standby) or the state with the first standby server recalled (if one
  is) exactly then; \<open>launch_ecs_instance\<close> is called exactly when moreover the standby
  list is empty. The downscale action is taken exactly when the upscale test fails, the
  aggregate is above \<open>downscale_margin\<close> and the available list has at least two entries:
  the phase prints \<open>Downscale\<close> exactly then, and its result is the state with the
  first server of greatest capacity moved to standby exactly then. The phase leaves the
  state as it is exactly when neither holds. With \<open>upscale_margin < downscale_margin\<close>
  the upscale test cannot hold together with the downscale test, so the downscale action
  is taken exactly when the aggregate is above \<open>downscale_margin\<close> and there are at least
  two available servers.
\<close>

theorem scale_decision:
  "(total_available_capacity m < upscale_margin m
      \<longleftrightarrow> (\<exists>evs. trace (scale_phase m p) = trace m @ Upscale # evs))
   \<and> ((\<not> total_available_capacity m < upscale_margin m
        \<and> total_available_capacity m > downscale_margin m
        \<and> 2 \<le> length (available_servers m))
      \<longleftrightarrow> trace (scale_phase m p) = trace m @ [Downscale])
   \<and> (upscale_margin m < downscale_margin m \<longrightarrow>
        ((total_available_capacity m > downscale_margin m
            \<and> 2 \<le> length (available_servers m))
          \<longleftrightarrow> trace (scale_phase m p) = trace m @ [Downscale])
        \<and> \<not> (total_available_capacity m < upscale_margin m
              \<and> total_available_capacity m > downscale_margin m
              \<and> 2 \<le> length (available_servers m)))
   \<and> (standby_servers m = [] \<longrightarrow>
        (total_available_capacity m < upscale_margin m
          \<longleftrightarrow> scale_phase m p = fst (add_server (m\<lparr>trace := trace m @ [Upscale]\<rparr>) p)))
   \<and> (\<forall>s rest. standby_servers m = s # rest \<longrightarrow>
        (total_available_capacity m < upscale_margin m
          \<longleftrightarrow> scale_phase m p =
                m\<lparr>trace := trace m @ [Upscale],
                  standby_servers := rest,
                  total_available_capacity :=
                    total_available_capacity m + available_capacity (heap m s),
                  available_servers := available_servers m @ [s]\<rparr>))
   \<and> (count_list (trace (scale_phase m p)) Launch_ecs_instance
          = count_list (trace m) Launch_ecs_instance + 1
        \<longleftrightarrow> total_available_capacity m < upscale_margin m \<and> standby_servers m = [])
   \<and> ((\<not> total_available_capacity m < upscale_margin m
        \<and> total_available_capacity m > downscale_margin m
        \<and> 2 \<le> length (available_servers m))
      \<longleftrightarrow> scale_phase m p =
          m\<lparr>trace := trace m @ [Downscale],
            available_servers :=
              take (get_available_server_index m) (available_servers m)
                @ drop (Suc (get_available_server_index m)) (available_servers m),
            total_available_capacity :=
              total_available_capacity m - available_capacity
                (heap m (available_servers m ! get_available_server_index m)),
            standby_servers :=
              standby_servers m @ [available_servers m ! get_available_server_index m]\<rparr>)
   \<and> ((\<not> total_available_capacity m < upscale_margin m
        \<and> \<not> (total_available_capacity m > downscale_margin m
              \<and> 2 \<le> length (available_servers m)))
      \<longleftrightarrow> scale_phase m p = m)
   \<and> (upscale_margin m < downscale_margin m \<longrightarrow>
        ((total_available_capacity m > downscale_margin m
            \<and> 2 \<le> length (available_servers m))
          \<longleftrightarrow> scale_phase m p =
              m\<lparr>trace := trace m @ [Downscale],
                available_servers :=
                  take (get_available_server_index m) (available_servers m)
                    @ drop (Suc (get_available_server_index m)) (available_servers m),
                total_available_capacity :=
                  total_available_capacity m - available_capacity
                    (heap m (available_servers m ! get_available_server_index m)),
                standby_servers :=
                  standby_servers m
                    @ [available_servers m ! get_available_server_index m]\<rparr>))"
proof -
  note up = scale_phase_upscale_marker [of m p]
  note down = scale_phase_downscale_marker [of m p]
  have excl: "upscale_margin m < downscale_margin m \<Longrightarrow>
      total_available_capacity m > downscale_margin m \<Longrightarrow>
      \<not> total_available_capacity m < upscale_margin m"
    by simp
  have markers: "upscale_margin m < downscale_margin m \<longrightarrow>
        ((total_available_capacity m > downscale_margin m
            \<and> 2 \<le> length (available_servers m))
          \<longleftrightarrow> trace (scale_phase m p) = trace m @ [Downscale])
        \<and> \<not> (total_available_capacity m < upscale_margin m
              \<and> total_available_capacity m > downscale_margin m
              \<and> 2 \<le> length (available_servers m))"
    using down excl by blast
  have prov: "standby_servers m = [] \<longrightarrow>
        (total_available_capacity m < upscale_margin m
          \<longleftrightarrow> scale_phase m p = fst (add_server (m\<lparr>trace := trace m @ [Upscale]\<rparr>) p))"
    using scale_phase_provision [of m p] by blast
  have rec: "\<forall>s rest. standby_servers m = s # rest \<longrightarrow>
        (total_available_capacity m < upscale_margin m
          \<longleftrightarrow> scale_phase m p =
                m\<lparr>trace := trace m @ [Upscale],
                  standby_servers := rest,
                  total_available_capacity :=
                    total_available_capacity m + available_capacity (heap m s),
                  available_servers := available_servers m @ [s]\<rparr>)"
    using scale_phase_recall [of m _ _ p] by blast
  note launch = scale_phase_launch_iff [of m p]
  note dn = scale_phase_downscale [of m p]
  note idle = scale_phase_idle [of m p]
  have dn': "upscale_margin m < downscale_margin m \<longrightarrow>
        ((total_available_capacity m > downscale_margin m
            \<and> 2 \<le> length (available_servers m))
          \<longleftrightarrow> scale_phase m p =
              m\<lparr>trace := trace m @ [Downscale],
                available_servers :=
                  take (get_available_server_index m) (available_servers m)
                    @ drop (Suc (get_available_server_index m)) (available_servers m),
                total_available_capacity :=
                  total_available_capacity m - available_capacity
                    (heap m (available_servers m ! get_available_server_index m)),
                standby_servers :=
                  standby_servers m
                    @ [available_servers m ! get_available_server_index m]\<rparr>)"
    using dn excl by blast
  show ?thesis
    by (intro conjI) (rule up down markers prov rec launch dn idle dn')+
qed

theorem scale_decision_witness:
  "upscale_margin loaded_pair < downscale_margin loaded_pair
   \<and> total_available_capacity loaded_pair > downscale_margin loaded_pair
   \<and> 2 \<le> length (available_servers loaded_pair)
   \<and> trace (scale_phase loaded_pair Instance_error) = trace loaded_pair @ [Downscale]
   \<and> \<not> total_available_capacity loaded_pair < upscale_margin loaded_pair
   \<and> scale_phase loaded_pair Instance_error =
          loaded_pair\<lparr>trace := trace loaded_pair @ [Downscale],
            available_servers :=
              take (get_available_server_index loaded_pair) (available_servers loaded_pair)
                @ drop (Suc (get_available_server_index loaded_pair))
                    (available_servers loaded_pair),
            total_available_capacity :=
              total_available_capacity loaded_pair - available_capacity
                (heap loaded_pair
                  (available_servers loaded_pair ! get_available_server_index loaded_pair)),
            standby_servers :=
              standby_servers loaded_pair
                @ [available_servers loaded_pair ! get_available_server_index loaded_pair]\<rparr>
   \<and> total_available_capacity starved_alone < upscale_margin starved_alone
   \<and> standby_servers starved_alone = []
   \<and> (\<exists>evs. trace (scale_phase starved_alone Instance_error)
              = trace starved_alone @ Upscale # evs)
   \<and> scale_phase starved_alone Instance_error
        = fst (add_server (starved_alone\<lparr>trace := trace starved_alone @ [Upscale]\<rparr>)
                 Instance_error)
   \<and> count_list (trace (scale_phase starved_alone Instance_error)) Launch_ecs_instance
        = count_list (trace starved_alone) Launch_ecs_instance + 1
   \<and> total_available_capacity starved_with_standby < upscale_margin starved_with_standby
   \<and> standby_servers starved_with_standby = [1]
   \<and> scale_phase starved_with_standby Instance_error =
        starved_with_standby\<lparr>trace := trace starved_with_standby @ [Upscale],
             standby_servers := [],
             total_available_capacity :=
               total_available_capacity starved_with_standby
                 + available_capacity (heap starved_with_standby 1),
             available_servers := available_servers starved_with_standby @ [1]\<rparr>
   \<and> \<not> total_available_capacity in_band < upscale_margin in_band
   \<and> \<not> (total_available_capacity in_band > downscale_margin in_band
         \<and> 2 \<le> length (available_servers in_band))
   \<and> scale_phase in_band (Task ''arn-3'' (Lookup ''i-3'' ''8000'' ''10.0.0.4'')) = in_band"
proof -
  have h: "upscale_margin loaded_pair < downscale_margin loaded_pair"
    "total_available_capacity loaded_pair > downscale_margin loaded_pair"
    "2 \<le> length (available_servers loaded_pair)"
    "\<not> total_available_capacity loaded_pair < upscale_margin loaded_pair"
    "total_available_capacity starved_alone < upscale_margin starved_alone"
    "standby_servers starved_alone = []"
    "total_available_capacity starved_with_standby < upscale_margin starved_with_standby"
    "standby_servers starved_with_standby = [1]"
    "\<not> total_available_capacity in_band < upscale_margin in_band"
    "\<not> (total_available_capacity in_band > downscale_margin in_band
         \<and> 2 \<le> length (available_servers in_band))"
    by (simp_all add: loaded_pair_def starved_alone_def starved_with_standby_def in_band_def
        example_manager_def)
  note a = scale_decision [of loaded_pair Instance_error]
  note b = scale_decision [of starved_alone Instance_error]
  note c = scale_decision [of starved_with_standby Instance_error]
  note d = scale_decision [of in_band "Task ''arn-3'' (Lookup ''i-3'' ''8000'' ''10.0.0.4'')"]
  from a h have 1: "trace (scale_phase loaded_pair Instance_error) = trace loaded_pair @ [Downscale]"
    by blast
  from a h have 2: "scale_phase loaded_pair Instance_error =
          loaded_pair\<lparr>trace := trace loaded_pair @ [Downscale],
            available_servers :=
              take (get_available_server_index loaded_pair) (available_servers loaded_pair)
                @ drop (Suc (get_available_server_index loaded_pair))
                    (available_servers loaded_pair),
            total_available_capacity :=
              total_available_capacity loaded_pair - available_capacity
                (heap loaded_pair
                  (available_servers loaded_pair ! get_available_server_index loaded_pair)),
            standby_servers :=
              standby_servers loaded_pair
                @ [available_servers loaded_pair ! get_available_server_index loaded_pair]\<rparr>"
    by blast
  from b h have 3: "\<exists>evs. trace (scale_phase starved_alone Instance_error)
              = trace starved_alone @ Upscale # evs"
    by blast
  from b h have 4: "scale_phase starved_alone Instance_error
        = fst (add_server (starved_alone\<lparr>trace := trace starved_alone @ [Upscale]\<rparr>)
                 Instance_error)"
    by blast
  from b h have 5: "count_list (trace (scale_phase starved_alone Instance_error))
        Launch_ecs_instance = count_list (trace starved_alone) Launch_ecs_instance + 1"
    by blast
  from c h have 6: "scale_phase starved_with_standby Instance_error =
        starved_with_standby\<lparr>trace := trace starved_with_standby @ [Upscale],
             standby_servers := [],
             total_available_capacity :=
               total_available_capacity starved_with_standby
                 + available_capacity (heap starved_with_standby 1),
             available_servers := available_servers starved_with_standby @ [1]\<rparr>"
    by blast
  from d h have 7: "scale_phase in_band (Task ''arn-3'' (Lookup ''i-3'' ''8000'' ''10.0.0.4''))
      = in_band"
    by blast
  from h 1 2 3 4 5 6 7 show ?thesis by blast
qed

text \<open>
  C4. When the downscale branch is taken, the entry at the first index of the greatest
  capacity leaves the available list (\<open>pop\<close> at that index), is appended to the standby
  list, and its capacity is subtracted from the aggregate; nothing else changes but the
  printed marker. In a pass that starts with two available servers which report 8 and 9,
  under margins 2 and 10, the server that reported 9 ends in standby and the aggregate
  is 8.
\<close>

theorem downscale_moves_first_max:
  "(\<not> total_available_capacity m < upscale_margin m
      \<and> total_available_capacity m > downscale_margin m
      \<and> length (available_servers m) > 1 \<longrightarrow>
      get_available_server_index m < length (available_servers m)
      \<and> (\<forall>k<length (available_servers m).
            available_capacity (heap m (available_servers m ! k))
              \<le> available_capacity
                   (heap m (available_servers m ! get_available_server_index m)))
      \<and> (\<forall>k<get_available_server_index m.
            available_capacity (heap m (available_servers m ! k))
              < available_capacity
                   (heap m (available_servers m ! get_available_server_index m)))
      \<and> scale_phase m p =
          m\<lparr>trace := trace m @ [Downscale],
            available_servers :=
              take (get_available_server_index m) (available_servers m)
                @ drop (Suc (get_available_server_index m)) (available_servers m),
            total_available_capacity :=
              total_available_capacity m - available_capacity
                (heap m (available_servers m ! get_available_server_index m)),
            standby_servers :=
              standby_servers m @ [available_servers m ! get_available_server_index m]\<rparr>
      \<and> (distinct (available_servers m) \<longrightarrow>
            available_servers m ! get_available_server_index m
              \<notin> set (available_servers (scale_phase m p))))
   \<and> available_servers
        (cycle (example_manager [0, 1] [] [0, 0])
          (example_world [Report (Some False) (Some 8), Report (Some False) (Some 9)]
             [] [] Instance_error)) = [0]
   \<and> standby_servers
        (cycle (example_manager [0, 1] [] [0, 0])
          (example_world [Report (Some False) (Some 8), Report (Some False) (Some 9)]
             [] [] Instance_error)) = [1]
   \<and> total_available_capacity
        (cycle (example_manager [0, 1] [] [0, 0])
          (example_world [Report (Some False) (Some 8), Report (Some False) (Some 9)]
             [] [] Instance_error)) = 8
   \<and> available_capacity (heap
        (cycle (example_manager [0, 1] [] [0, 0])
          (example_world [Report (Some False) (Some 8), Report (Some False) (Some 9)]
             [] [] Instance_error)) 1) = 9"
proof -
  let ?xs = "available_servers m"
  let ?i = "get_available_server_index m"
  have general: "get_available_server_index m < length ?xs
      \<and> (\<forall>k<length ?xs. available_capacity (heap m (?xs ! k))
              \<le> available_capacity (heap m (?xs ! ?i)))
      \<and> (\<forall>k<?i. available_capacity (heap m (?xs ! k))
              < available_capacity (heap m (?xs ! ?i)))
      \<and> scale_phase m p =
          m\<lparr>trace := trace m @ [Downscale],
            available_servers := take ?i ?xs @ drop (Suc ?i) ?xs,
            total_available_capacity :=
              total_available_capacity m - available_capacity (heap m (?xs ! ?i)),
            standby_servers := standby_servers m @ [?xs ! ?i]\<rparr>
      \<and> (distinct ?xs \<longrightarrow> ?xs ! ?i \<notin> set (available_servers (scale_phase m p)))"
    if a: "\<not> total_available_capacity m < upscale_margin m"
      and b: "total_available_capacity m > downscale_margin m"
      and c: "length ?xs > 1"
  proof -
    from c have ne: "?xs \<noteq> []" by auto
    have idx: "get_available_server_index (m\<lparr>trace := t\<rparr>) = ?i" for t
      by (simp add: get_available_server_index_def)
    have eq: "scale_phase m p =
          m\<lparr>trace := trace m @ [Downscale],
            available_servers := take ?i ?xs @ drop (Suc ?i) ?xs,
            total_available_capacity :=
              total_available_capacity m - available_capacity (heap m (?xs ! ?i)),
            standby_servers := standby_servers m @ [?xs ! ?i]\<rparr>"
      using a b c by (simp add: scale_phase_def Let_def idx)
    have gone: "?xs ! ?i \<notin> set (take ?i ?xs @ drop (Suc ?i) ?xs)" if d: "distinct ?xs"
    proof -
      have "?xs = take ?i ?xs @ ?xs ! ?i # drop (Suc ?i) ?xs"
        using index_less [OF ne] by (simp add: id_take_nth_drop)
      then have "distinct (take ?i ?xs @ ?xs ! ?i # drop (Suc ?i) ?xs)"
        using d by simp
      then show ?thesis by auto
    qed
    show ?thesis
      using index_less [OF ne] index_greatest [OF ne] index_first [OF ne] gone
      unfolding eq by simp
  qed
  have ex: "cycle (example_manager [0, 1] [] [0, 0])
          (example_world [Report (Some False) (Some 8), Report (Some False) (Some 9)]
             [] [] Instance_error)
     = (example_manager [0, 1] [] [0, 0])
        \<lparr>available_servers := [0], standby_servers := [1], total_available_capacity := 8,
         heap := (example_heap [0, 0])(0 := example_server ''i-0'' 8 False,
                    1 := example_server ''i-1'' 9 False),
         trace := [Downscale, Sleep 30]\<rparr>"
    by (simp add: cycle_def poll_phase_def poll_commit_def scale_phase_def evict_phase_def
        sleep_def example_manager_def example_world_def responses_def example_heap_def
        example_server_def get_available_server_index_def scan_step_def Let_def)
  have c1: "available_servers
        (cycle (example_manager [0, 1] [] [0, 0])
          (example_world [Report (Some False) (Some 8), Report (Some False) (Some 9)]
             [] [] Instance_error)) = [0]"
    and c2: "standby_servers
        (cycle (example_manager [0, 1] [] [0, 0])
          (example_world [Report (Some False) (Some 8), Report (Some False) (Some 9)]
             [] [] Instance_error)) = [1]"
    and c3: "total_available_capacity
        (cycle (example_manager [0, 1] [] [0, 0])
          (example_world [Report (Some False) (Some 8), Report (Some False) (Some 9)]
             [] [] Instance_error)) = 8"
    and c4: "available_capacity (heap
        (cycle (example_manager [0, 1] [] [0, 0])
          (example_world [Report (Some False) (Some 8), Report (Some False) (Some 9)]
             [] [] Instance_error)) 1) = 9"
    unfolding ex by (simp_all add: example_server_def)
  from general c1 c2 c3 c4 show ?thesis by blast
qed

theorem downscale_moves_first_max_witness:
  "\<not> total_available_capacity loaded_pair < upscale_margin loaded_pair
   \<and> total_available_capacity loaded_pair > downscale_margin loaded_pair
   \<and> length (available_servers loaded_pair) > 1
   \<and> distinct (available_servers loaded_pair)
   \<and> get_available_server_index loaded_pair < length (available_servers loaded_pair)
   \<and> scale_phase loaded_pair Instance_error =
          loaded_pair\<lparr>trace := trace loaded_pair @ [Downscale],
            available_servers :=
              take (get_available_server_index loaded_pair) (available_servers loaded_pair)
                @ drop (Suc (get_available_server_index loaded_pair))
                    (available_servers loaded_pair),
            total_available_capacity :=
              total_available_capacity loaded_pair - available_capacity
                (heap loaded_pair
                   (available_servers loaded_pair ! get_available_server_index loaded_pair)),
            standby_servers :=
              standby_servers loaded_pair
                @ [available_servers loaded_pair ! get_available_server_index loaded_pair]\<rparr>
   \<and> available_servers loaded_pair ! get_available_server_index loaded_pair
        \<notin> set (available_servers (scale_phase loaded_pair Instance_error))"
proof -
  have h: "\<not> total_available_capacity loaded_pair < upscale_margin loaded_pair"
    "total_available_capacity loaded_pair > downscale_margin loaded_pair"
    "length (available_servers loaded_pair) > 1"
    "distinct (available_servers loaded_pair)"
    by (simp_all add: loaded_pair_def example_manager_def)
  from downscale_moves_first_max [of loaded_pair Instance_error] h
  show ?thesis by blast
qed

text \<open>
  C5. When the upscale branch is taken and the standby list is not empty, its first entry
  moves to the end of the available list and its capacity is added to the aggregate; no
  AWS helper is called. When the standby list is empty, \<open>add_server\<close> is called: if the
  launch and the construction succeed, the new object is appended to the available
  list; if \<open>launch_ecs_instance\<close>, \<open>launch_task\<close> or the constructor raises, both pools,
  the store and the aggregate are as before. A pass calls \<open>launch_ecs_instance\<close> at most
  once, and not at all when it starts with a standby server.
\<close>

theorem upscale_recalls_or_provisions:
  "(total_available_capacity m < upscale_margin m \<longrightarrow>
      (\<forall>s rest. standby_servers m = s # rest \<longrightarrow>
         scale_phase m p =
           m\<lparr>trace := trace m @ [Upscale],
             standby_servers := rest,
             total_available_capacity :=
               total_available_capacity m + available_capacity (heap m s),
             available_servers := available_servers m @ [s]\<rparr>)
      \<and> (standby_servers m = [] \<longrightarrow>
          (\<forall>arn ec2 port ip. p = Task arn (Lookup ec2 port ip) \<longrightarrow>
             scale_phase m p =
               m\<lparr>trace := trace m @ [Upscale, Launch_ecs_instance, Launch_task],
                 available_servers := available_servers m @ [next_ref m],
                 heap := (heap m)(next_ref m :=
                   \<lparr>task_arn = arn, status = ''RUNNING'', ec2_id = ec2,
                    address = ip @ '':'' @ port, available_capacity = 0,
                    ready_to_close = False\<rparr>),
                 next_ref := Suc (next_ref m)\<rparr>)
          \<and> (p = Instance_error \<or> p = Task_error \<or> (\<exists>arn. p = Task arn Lookup_error) \<longrightarrow>
               available_servers (scale_phase m p) = available_servers m
               \<and> standby_servers (scale_phase m p) = standby_servers m
               \<and> heap (scale_phase m p) = heap m
               \<and> next_ref (scale_phase m p) = next_ref m
               \<and> total_available_capacity (scale_phase m p) = total_available_capacity m
               \<and> count_list (trace (scale_phase m p)) Launch_ecs_instance
                    = count_list (trace m) Launch_ecs_instance + 1)))
   \<and> (standby_servers m \<noteq> [] \<longrightarrow>
        count_list (trace (cycle m w)) Launch_ecs_instance
          = count_list (trace m) Launch_ecs_instance)
   \<and> count_list (trace (cycle m w)) Launch_ecs_instance
        \<le> count_list (trace m) Launch_ecs_instance + 1"
proof -
  have recall: "\<forall>s rest. standby_servers m = s # rest \<longrightarrow>
         scale_phase m p =
           m\<lparr>trace := trace m @ [Upscale],
             standby_servers := rest,
             total_available_capacity :=
               total_available_capacity m + available_capacity (heap m s),
             available_servers := available_servers m @ [s]\<rparr>"
    if "total_available_capacity m < upscale_margin m"
    using that by (simp add: scale_phase_def Let_def)
  have fresh: "\<forall>arn ec2 port ip. p = Task arn (Lookup ec2 port ip) \<longrightarrow>
             scale_phase m p =
               m\<lparr>trace := trace m @ [Upscale, Launch_ecs_instance, Launch_task],
                 available_servers := available_servers m @ [next_ref m],
                 heap := (heap m)(next_ref m :=
                   \<lparr>task_arn = arn, status = ''RUNNING'', ec2_id = ec2,
                    address = ip @ '':'' @ port, available_capacity = 0,
                    ready_to_close = False\<rparr>),
                 next_ref := Suc (next_ref m)\<rparr>"
    if "total_available_capacity m < upscale_margin m" "standby_servers m = []"
    using that by (simp add: scale_phase_def Let_def add_server_def Server_init_def)
  have failed: "available_servers (scale_phase m p) = available_servers m
               \<and> standby_servers (scale_phase m p) = standby_servers m
               \<and> heap (scale_phase m p) = heap m
               \<and> next_ref (scale_phase m p) = next_ref m
               \<and> total_available_capacity (scale_phase m p) = total_available_capacity m
               \<and> count_list (trace (scale_phase m p)) Launch_ecs_instance
                    = count_list (trace m) Launch_ecs_instance + 1"
    if "total_available_capacity m < upscale_margin m" "standby_servers m = []"
      "p = Instance_error \<or> p = Task_error \<or> (\<exists>arn. p = Task arn Lookup_error)"
    using that
    by (auto simp: scale_phase_def Let_def add_server_def Server_init_def count_list_append')
  have none: "count_list (trace (cycle m w)) Launch_ecs_instance
          = count_list (trace m) Launch_ecs_instance" if "standby_servers m \<noteq> []"
    using that by (simp add: cycle_launches)
  have once: "count_list (trace (cycle m w)) Launch_ecs_instance
        \<le> count_list (trace m) Launch_ecs_instance + 1"
    by (simp add: cycle_launches)
  from recall fresh failed none once show ?thesis by blast
qed

theorem upscale_recalls_or_provisions_witness:
  "total_available_capacity starved_with_standby < upscale_margin starved_with_standby
   \<and> standby_servers starved_with_standby = [1]
   \<and> scale_phase starved_with_standby Instance_error =
        starved_with_standby\<lparr>trace := trace starved_with_standby @ [Upscale],
             standby_servers := [],
             total_available_capacity :=
               total_available_capacity starved_with_standby
                 + available_capacity (heap starved_with_standby 1),
             available_servers := available_servers starved_with_standby @ [1]\<rparr>
   \<and> count_list (trace (cycle starved_with_standby
          (example_world [] [] [] Instance_error))) Launch_ecs_instance
        = count_list (trace starved_with_standby) Launch_ecs_instance
   \<and> total_available_capacity starved_alone < upscale_margin starved_alone
   \<and> standby_servers starved_alone = []
   \<and> scale_phase starved_alone (Task ''arn-1'' (Lookup ''i-1'' ''8000'' ''10.0.0.2'')) =
        starved_alone\<lparr>trace := trace starved_alone @ [Upscale, Launch_ecs_instance, Launch_task],
                 available_servers := available_servers starved_alone @ [next_ref starved_alone],
                 heap := (heap starved_alone)(next_ref starved_alone :=
                   \<lparr>task_arn = ''arn-1'', status = ''RUNNING'', ec2_id = ''i-1'',
                    address = ''10.0.0.2'' @ '':'' @ ''8000'', available_capacity = 0,
                    ready_to_close = False\<rparr>),
                 next_ref := Suc (next_ref starved_alone)\<rparr>
   \<and> available_servers (scale_phase starved_alone (Task ''arn-1'' Lookup_error))
        = available_servers starved_alone
   \<and> standby_servers (scale_phase starved_alone (Task ''arn-1'' Lookup_error))
        = standby_servers starved_alone
   \<and> count_list (trace (scale_phase starved_alone (Task ''arn-1'' Lookup_error)))
        Launch_ecs_instance = count_list (trace starved_alone) Launch_ecs_instance + 1"
proof -
  have h: "total_available_capacity starved_with_standby < upscale_margin starved_with_standby"
    "standby_servers starved_with_standby = [1]"
    "standby_servers starved_with_standby \<noteq> []"
    "total_available_capacity starved_alone < upscale_margin starved_alone"
    "standby_servers starved_alone = []"
    by (simp_all add: starved_with_standby_def starved_alone_def example_manager_def)
  note a = upscale_recalls_or_provisions
    [of starved_with_standby Instance_error "example_world [] [] [] Instance_error"]
  note b = upscale_recalls_or_provisions
    [of starved_alone "Task ''arn-1'' (Lookup ''i-1'' ''8000'' ''10.0.0.2'')"]
  note c = upscale_recalls_or_provisions [of starved_alone "Task ''arn-1'' Lookup_error"]
  have 1: "scale_phase starved_with_standby Instance_error =
        starved_with_standby\<lparr>trace := trace starved_with_standby @ [Upscale],
             standby_servers := [],
             total_available_capacity :=
               total_available_capacity starved_with_standby
                 + available_capacity (heap starved_with_standby 1),
             available_servers := available_servers starved_with_standby @ [1]\<rparr>"
    using a h by blast
  have 2: "count_list (trace (cycle starved_with_standby
          (example_world [] [] [] Instance_error))) Launch_ecs_instance
        = count_list (trace starved_with_standby) Launch_ecs_instance"
    using a h by blast
  have 3: "scale_phase starved_alone (Task ''arn-1'' (Lookup ''i-1'' ''8000'' ''10.0.0.2'')) =
        starved_alone\<lparr>trace := trace starved_alone @ [Upscale, Launch_ecs_instance, Launch_task],
                 available_servers := available_servers starved_alone @ [next_ref starved_alone],
                 heap := (heap starved_alone)(next_ref starved_alone :=
                   \<lparr>task_arn = ''arn-1'', status = ''RUNNING'', ec2_id = ''i-1'',
                    address = ''10.0.0.2'' @ '':'' @ ''8000'', available_capacity = 0,
                    ready_to_close = False\<rparr>),
                 next_ref := Suc (next_ref starved_alone)\<rparr>"
    using b h by blast
  have 4: "available_servers (scale_phase starved_alone (Task ''arn-1'' Lookup_error))
        = available_servers starved_alone
   \<and> standby_servers (scale_phase starved_alone (Task ''arn-1'' Lookup_error))
        = standby_servers starved_alone
   \<and> count_list (trace (scale_phase starved_alone (Task ''arn-1'' Lookup_error)))
        Launch_ecs_instance = count_list (trace starved_alone) Launch_ecs_instance + 1"
    using c h by blast
  from h 1 2 3 4 show ?thesis by blast
qed

section \<open>The polls of a pass\<close>

lemma contribution_failed: "\<not> poll_ok x \<Longrightarrow> contribution x = 0"
  by (cases x rule: poll_ok.cases) simp_all

lemma polled_capacity [simp]: "available_capacity (polled s x) = contribution x"
  by (simp add: polled_def update_state_capacity contribution_failed)

lemma polled_static [simp]:
  "ec2_id (polled s x) = ec2_id s"
  "status (polled s x) = status s"
  "task_arn (polled s x) = task_arn s"
  "address (polled s x) = address s"
  by (simp_all add: polled_def)

lemma poll_available_Cons:
  "poll_available (r # rs) env h n us =
     poll_available rs (\<lambda>i. env (Suc i)) (h(r := polled (h r) (env 0)))
       (n + contribution (env 0)) (us @ (if poll_ok (env 0) then [] else [r]))"
proof (cases "update_state (h r) (env 0)")
  case (Pair s ok)
  then have ok: "ok = poll_ok (env 0)" and s: "s = fst (update_state (h r) (env 0))"
    using update_state_ok [of "h r" "env 0"] by simp_all
  show ?thesis
    by (simp add: Pair Let_def ok polled_def s [symmetric] update_state_capacity
        contribution_failed)
      (simp add: s update_state_capacity)
qed

lemma poll_available_total:
  "fst (snd (poll_available rs env h n us)) = n + (\<Sum>i<length rs. contribution (env i))"
proof (induction rs arbitrary: env h n us)
  case Nil
  show ?case by simp
next
  case (Cons r rs)
  show ?case
    by (simp only: poll_available_Cons Cons.IH length_Cons sum.lessThan_Suc_shift add.assoc)
qed

lemma poll_available_unresponsive:
  "snd (snd (poll_available rs env h n us)) = us @ failures rs env"
proof (induction rs arbitrary: env h n us)
  case Nil
  show ?case by simp
next
  case (Cons r rs)
  show ?case by (simp only: poll_available_Cons Cons.IH) simp
qed

lemma poll_available_heap_other:
  "q \<notin> set rs \<Longrightarrow> fst (poll_available rs env h n us) q = h q"
proof (induction rs arbitrary: env h n us)
  case Nil
  show ?case by simp
next
  case (Cons r rs)
  then show ?case by (simp only: poll_available_Cons) simp
qed

lemma poll_available_heap_at:
  "distinct rs \<Longrightarrow> i < length rs \<Longrightarrow>
     fst (poll_available rs env h n us) (rs ! i) = polled (h (rs ! i)) (env i)"
proof (induction rs arbitrary: env h n us i)
  case Nil
  then show ?case by simp
next
  case (Cons r rs)
  show ?case
  proof (cases i)
    case 0
    with Cons.prems show ?thesis
      by (simp only: poll_available_Cons) (simp add: poll_available_heap_other)
  next
    case (Suc j)
    with Cons.prems have j: "j < length rs" and d: "distinct rs" and ne: "rs ! j \<noteq> r"
      by auto
    show ?thesis
      using Cons.IH [OF d j, of "\<lambda>i. env (Suc i)"] ne
      by (simp only: poll_available_Cons Suc nth_Cons_Suc) simp
  qed
qed

lemma poll_standby_Cons:
  "poll_standby (r # rs) env h us =
     poll_standby rs (\<lambda>i. env (Suc i)) (h(r := fst (update_state (h r) (env 0))))
       (us @ (if poll_ok (env 0) then [] else [r]))"
proof (cases "update_state (h r) (env 0)")
  case (Pair s ok)
  then have ok: "ok = poll_ok (env 0)" and s: "s = fst (update_state (h r) (env 0))"
    using update_state_ok [of "h r" "env 0"] by simp_all
  show ?thesis by (simp add: Pair ok s [symmetric])
qed

lemma poll_standby_unresponsive:
  "snd (poll_standby rs env h us) = us @ failures rs env"
proof (induction rs arbitrary: env h us)
  case Nil
  show ?case by simp
next
  case (Cons r rs)
  show ?case by (simp only: poll_standby_Cons Cons.IH) simp
qed

lemma poll_standby_heap_other:
  "q \<notin> set rs \<Longrightarrow> fst (poll_standby rs env h us) q = h q"
proof (induction rs arbitrary: env h us)
  case Nil
  show ?case by simp
next
  case (Cons r rs)
  then show ?case by (simp only: poll_standby_Cons) simp
qed

lemma poll_standby_heap_at:
  "distinct rs \<Longrightarrow> i < length rs \<Longrightarrow>
     fst (poll_standby rs env h us) (rs ! i) = fst (update_state (h (rs ! i)) (env i))"
proof (induction rs arbitrary: env h us i)
  case Nil
  then show ?case by simp
next
  case (Cons r rs)
  show ?case
  proof (cases i)
    case 0
    with Cons.prems show ?thesis
      by (simp only: poll_standby_Cons) (simp add: poll_standby_heap_other)
  next
    case (Suc j)
    with Cons.prems have j: "j < length rs" and d: "distinct rs" and ne: "rs ! j \<noteq> r"
      by auto
    show ?thesis
      using Cons.IH [OF d j, of "\<lambda>i. env (Suc i)"] ne
      by (simp only: poll_standby_Cons Suc nth_Cons_Suc) simp
  qed
qed

lemma set_failures:
  "set (failures rs env) = {rs ! i | i. i < length rs \<and> \<not> poll_ok (env i)}"
proof (induction rs arbitrary: env)
  case Nil
  show ?case by simp
next
  case (Cons r rs)
  have "{(r # rs) ! i | i. i < length (r # rs) \<and> \<not> poll_ok (env i)}
      = (if poll_ok (env 0) then {} else {r})
        \<union> {rs ! i | i. i < length rs \<and> \<not> poll_ok (env (Suc i))}"
    (is "?L = ?R")
  proof (rule set_eqI)
    fix x
    show "x \<in> ?L \<longleftrightarrow> x \<in> ?R"
    proof
      assume "x \<in> ?L"
      then obtain i where i: "x = (r # rs) ! i" "i < length (r # rs)" "\<not> poll_ok (env i)"
        by blast
      then show "x \<in> ?R" by (cases i) auto
    next
      assume "x \<in> ?R"
      then consider "\<not> poll_ok (env 0)" "x = r"
        | i where "x = rs ! i" "i < length rs" "\<not> poll_ok (env (Suc i))"
        by (auto split: if_splits)
      then show "x \<in> ?L"
      proof cases
        case 1
        then have "x = (r # rs) ! 0 \<and> 0 < length (r # rs) \<and> \<not> poll_ok (env 0)" by simp
        then show ?thesis by blast
      next
        case 2
        then have "x = (r # rs) ! Suc i \<and> Suc i < length (r # rs) \<and> \<not> poll_ok (env (Suc i))"
          by simp
        then show ?thesis by blast
      qed
    qed
  qed
  then show ?case by (simp add: Cons.IH)
qed



lemma poll_commit_eq:
  "poll_commit m w =
     (m\<lparr>heap := fst (poll_available (available_servers m) (available_health w) (heap m) 0 []),
        total_available_capacity :=
          (\<Sum>i<length (available_servers m). contribution (available_health w i))\<rparr>,
      failures (available_servers m) (available_health w))"
  using poll_available_total [of "available_servers m" "available_health w" "heap m" 0 "[]"]
    poll_available_unresponsive [of "available_servers m" "available_health w" "heap m" 0 "[]"]
  by (cases "poll_available (available_servers m) (available_health w) (heap m) 0 []")
    (simp add: poll_commit_def)

lemma poll_phase_eq:
  "poll_phase m w =
     ((fst (poll_commit m w))
        \<lparr>heap := fst (poll_standby (standby_servers m) (standby_health w)
                       (heap (fst (poll_commit m w)))
                       (failures (available_servers m) (available_health w)))\<rparr>,
      failures (available_servers m) (available_health w)
        @ failures (standby_servers m) (standby_health w))"
  using poll_standby_unresponsive [of "standby_servers m" "standby_health w"
      "heap (fst (poll_commit m w))" "failures (available_servers m) (available_health w)"]
  by (cases "poll_standby (standby_servers m) (standby_health w)
        (heap (fst (poll_commit m w))) (failures (available_servers m) (available_health w))")
    (simp add: poll_phase_def poll_commit_eq)

lemma sum_list_map_nth:
  "sum_list (map f xs) = (\<Sum>i<length xs. f (xs ! i))"
proof -
  have "sum_list (map f xs) = (\<Sum>i = 0..<length (map f xs). map f xs ! i)"
    by (rule sum_list_sum_nth)
  also have "\<dots> = (\<Sum>i<length xs. f (xs ! i))"
    by (simp add: atLeast0LessThan)
  finally show ?thesis .
qed

lemma poll_commit_capacity_at:
  assumes "distinct (available_servers m)" and "i < length (available_servers m)"
  shows "available_capacity (heap (fst (poll_commit m w)) (available_servers m ! i))
     = contribution (available_health w i)"
  using assms by (simp add: poll_commit_eq poll_available_heap_at)

lemma poll_phase_capacity_at:
  assumes "distinct (available_servers m @ standby_servers m)"
    and "i < length (available_servers m)"
  shows "available_capacity (heap (fst (poll_phase m w)) (available_servers m ! i))
     = contribution (available_health w i)"
proof -
  from assms have d: "distinct (available_servers m)"
    and disj: "set (available_servers m) \<inter> set (standby_servers m) = {}"
    by simp_all
  have "available_servers m ! i \<in> set (available_servers m)"
    using assms(2) by (rule nth_mem)
  with disj have out: "available_servers m ! i \<notin> set (standby_servers m)" by blast
  show ?thesis
    using poll_commit_capacity_at [OF d assms(2), of w] out
    by (simp add: poll_phase_eq poll_standby_heap_other)
qed

text \<open>
  C1. After the first loop and the assignment to \<open>total_available_capacity\<close>, the
  aggregate is the sum, over the polls of the available servers, of the capacity
  reported by a successful poll and of 0 for a failed one, whatever the responses are.
  The entries of the available list being different objects, this is the sum of
  \<open>available_capacity\<close> over the entries whose poll succeeded, and also over all
  entries, a failed one holding 0. The entries of both pools being different objects,
  the same holds after the polls of the standby servers.
\<close>

theorem poll_commit_aggregate:
  "total_available_capacity (fst (poll_commit m w))
     = (\<Sum>i<length (available_servers m). contribution (available_health w i))
   \<and> available_servers (fst (poll_commit m w)) = available_servers m
   \<and> (distinct (available_servers m) \<longrightarrow>
        total_available_capacity (fst (poll_commit m w))
          = (\<Sum>i<length (available_servers m).
               if poll_ok (available_health w i)
               then available_capacity
                      (heap (fst (poll_commit m w)) (available_servers m ! i))
               else 0)
        \<and> total_available_capacity (fst (poll_commit m w))
          = sum_list (map (\<lambda>r. available_capacity (heap (fst (poll_commit m w)) r))
               (available_servers m))
        \<and> (\<forall>i<length (available_servers m). \<not> poll_ok (available_health w i) \<longrightarrow>
              available_capacity
                (heap (fst (poll_commit m w)) (available_servers m ! i)) = 0))
   \<and> (distinct (available_servers m @ standby_servers m) \<longrightarrow>
        available_servers (fst (poll_phase m w)) = available_servers m
        \<and> total_available_capacity (fst (poll_phase m w))
          = (\<Sum>i<length (available_servers m).
               if poll_ok (available_health w i)
               then available_capacity
                      (heap (fst (poll_phase m w)) (available_servers m ! i))
               else 0)
        \<and> total_available_capacity (fst (poll_phase m w))
          = sum_list (map (\<lambda>r. available_capacity (heap (fst (poll_phase m w)) r))
               (available_servers m)))"
proof -
  let ?xs = "available_servers m"
  let ?c = "\<lambda>i. contribution (available_health w i)"
  have tot: "total_available_capacity (fst (poll_commit m w)) = (\<Sum>i<length ?xs. ?c i)"
    by (simp add: poll_commit_eq)
  have av: "available_servers (fst (poll_commit m w)) = ?xs"
    by (simp add: poll_commit_eq)
  have pick: "(if poll_ok x then contribution x else 0) = contribution x" for x
    by (simp add: contribution_failed)
  have commit: "total_available_capacity (fst (poll_commit m w))
          = (\<Sum>i<length ?xs. if poll_ok (available_health w i)
               then available_capacity (heap (fst (poll_commit m w)) (?xs ! i)) else 0)
        \<and> total_available_capacity (fst (poll_commit m w))
          = sum_list (map (\<lambda>r. available_capacity (heap (fst (poll_commit m w)) r)) ?xs)
        \<and> (\<forall>i<length ?xs. \<not> poll_ok (available_health w i) \<longrightarrow>
              available_capacity (heap (fst (poll_commit m w)) (?xs ! i)) = 0)"
    if d: "distinct ?xs"
  proof -
    have at: "available_capacity (heap (fst (poll_commit m w)) (?xs ! i)) = ?c i"
      if "i < length ?xs" for i
      using poll_commit_capacity_at [OF d that] .
    have 1: "(\<Sum>i<length ?xs. if poll_ok (available_health w i)
               then available_capacity (heap (fst (poll_commit m w)) (?xs ! i)) else 0)
          = (\<Sum>i<length ?xs. ?c i)"
      by (rule sum.cong) (simp_all add: at contribution_failed)
    have 2: "sum_list (map (\<lambda>r. available_capacity (heap (fst (poll_commit m w)) r)) ?xs)
          = (\<Sum>i<length ?xs. ?c i)"
      unfolding sum_list_map_nth by (rule sum.cong) (simp_all add: at)
    have 3: "\<forall>i<length ?xs. \<not> poll_ok (available_health w i) \<longrightarrow>
              available_capacity (heap (fst (poll_commit m w)) (?xs ! i)) = 0"
      by (simp add: at contribution_failed)
    from tot 1 2 3 show ?thesis by simp
  qed
  have phase: "available_servers (fst (poll_phase m w)) = ?xs
        \<and> total_available_capacity (fst (poll_phase m w))
          = (\<Sum>i<length ?xs. if poll_ok (available_health w i)
               then available_capacity (heap (fst (poll_phase m w)) (?xs ! i)) else 0)
        \<and> total_available_capacity (fst (poll_phase m w))
          = sum_list (map (\<lambda>r. available_capacity (heap (fst (poll_phase m w)) r)) ?xs)"
    if d: "distinct (?xs @ standby_servers m)"
  proof -
    have at: "available_capacity (heap (fst (poll_phase m w)) (?xs ! i)) = ?c i"
      if "i < length ?xs" for i
      using poll_phase_capacity_at [OF d that] .
    have tot': "total_available_capacity (fst (poll_phase m w)) = (\<Sum>i<length ?xs. ?c i)"
      by (simp add: poll_phase_eq poll_commit_eq)
    have 0: "available_servers (fst (poll_phase m w)) = ?xs"
      by (simp add: poll_phase_eq poll_commit_eq)
    have 1: "(\<Sum>i<length ?xs. if poll_ok (available_health w i)
               then available_capacity (heap (fst (poll_phase m w)) (?xs ! i)) else 0)
          = (\<Sum>i<length ?xs. ?c i)"
      by (rule sum.cong) (simp_all add: at contribution_failed)
    have 2: "sum_list (map (\<lambda>r. available_capacity (heap (fst (poll_phase m w)) r)) ?xs)
          = (\<Sum>i<length ?xs. ?c i)"
      unfolding sum_list_map_nth by (rule sum.cong) (simp_all add: at)
    from tot' 0 1 2 show ?thesis by simp
  qed
  from tot av commit phase show ?thesis by blast
qed

theorem poll_commit_aggregate_witness:
  "distinct (available_servers (example_manager [0, 1] [2] [0, 0, 0]))
   \<and> distinct (available_servers (example_manager [0, 1] [2] [0, 0, 0])
        @ standby_servers (example_manager [0, 1] [2] [0, 0, 0]))
   \<and> total_available_capacity (fst (poll_commit (example_manager [0, 1] [2] [0, 0, 0])
        (example_world [Report (Some False) (Some 4), Unreachable] [Unreachable] []
           Instance_error))) = 4
   \<and> total_available_capacity (fst (poll_commit (example_manager [0, 1] [2] [0, 0, 0])
        (example_world [Report (Some False) (Some 4), Unreachable] [Unreachable] []
           Instance_error)))
      = sum_list (map (\<lambda>r. available_capacity (heap (fst (poll_commit
            (example_manager [0, 1] [2] [0, 0, 0])
            (example_world [Report (Some False) (Some 4), Unreachable] [Unreachable] []
               Instance_error))) r))
          (available_servers (example_manager [0, 1] [2] [0, 0, 0])))
   \<and> total_available_capacity (fst (poll_phase (example_manager [0, 1] [2] [0, 0, 0])
        (example_world [Report (Some False) (Some 4), Unreachable] [Unreachable] []
           Instance_error)))
      = sum_list (map (\<lambda>r. available_capacity (heap (fst (poll_phase
            (example_manager [0, 1] [2] [0, 0, 0])
            (example_world [Report (Some False) (Some 4), Unreachable] [Unreachable] []
               Instance_error))) r))
          (available_servers (example_manager [0, 1] [2] [0, 0, 0])))"
proof -
  let ?m = "example_manager [0, 1] [2] [0, 0, 0]"
  let ?w = "example_world [Report (Some False) (Some 4), Unreachable] [Unreachable] []
           Instance_error"
  have h: "distinct (available_servers ?m)"
    "distinct (available_servers ?m @ standby_servers ?m)"
    by (simp_all add: example_manager_def)
  note t = poll_commit_aggregate [of ?m ?w]
  from t have "total_available_capacity (fst (poll_commit ?m ?w))
     = (\<Sum>i<length (available_servers ?m). contribution (available_health ?w i))"
    by blast
  then have v: "total_available_capacity (fst (poll_commit ?m ?w)) = 4"
    by (simp add: example_manager_def example_world_def responses_def)
  from t h v show ?thesis by blast
qed

lemma poll_available_static:
  "status (fst (poll_available rs env h n us) q) = status (h q)
   \<and> ec2_id (fst (poll_available rs env h n us) q) = ec2_id (h q)"
proof (induction rs arbitrary: env h n us)
  case Nil
  show ?case by simp
next
  case (Cons r rs)
  show ?case by (simp only: poll_available_Cons Cons.IH) simp
qed

lemma poll_standby_static:
  "status (fst (poll_standby rs env h us) q) = status (h q)
   \<and> ec2_id (fst (poll_standby rs env h us) q) = ec2_id (h q)"
proof (induction rs arbitrary: env h us)
  case Nil
  show ?case by simp
next
  case (Cons r rs)
  show ?case by (simp only: poll_standby_Cons Cons.IH) simp
qed

lemma poll_phase_static:
  "status (heap (fst (poll_phase m w)) q) = status (heap m q)"
  "ec2_id (heap (fst (poll_phase m w)) q) = ec2_id (heap m q)"
  by (simp_all add: poll_phase_eq poll_commit_eq poll_standby_static poll_available_static)

lemma failures_nth:
  "i < length rs \<Longrightarrow> \<not> poll_ok (env i) \<Longrightarrow> rs ! i \<in> set (failures rs env)"
  unfolding set_failures by blast

text \<open>
  C9. When the poll of an available server fails in the first loop, its
  \<open>available_capacity\<close> is set to 0, the aggregate is the sum of what the other polls
  contribute, and the server is recorded in \<open>unresponsive_servers\<close>. Its \<open>status\<close>
  is not written: it keeps the value it had.
\<close>

theorem failed_poll_of_available_server:
  assumes "distinct (available_servers m)"
    and "i < length (available_servers m)"
    and "\<not> poll_ok (available_health w i)"
  shows "available_capacity (heap (fst (poll_commit m w)) (available_servers m ! i)) = 0
     \<and> total_available_capacity (fst (poll_commit m w))
         = (\<Sum>j\<in>{..<length (available_servers m)} - {i}.
              contribution (available_health w j))
     \<and> available_servers m ! i \<in> set (snd (poll_commit m w))
     \<and> available_servers m ! i \<in> set (snd (poll_phase m w))
     \<and> status (heap (fst (poll_commit m w)) (available_servers m ! i))
         = status (heap m (available_servers m ! i))
     \<and> status (heap (fst (poll_phase m w)) (available_servers m ! i))
         = status (heap m (available_servers m ! i))
     \<and> (distinct (available_servers m @ standby_servers m) \<longrightarrow>
          available_capacity (heap (fst (poll_phase m w)) (available_servers m ! i)) = 0)"
proof -
  let ?xs = "available_servers m"
  let ?c = "\<lambda>j. contribution (available_health w j)"
  have zero: "?c i = 0" using assms(3) by (rule contribution_failed)
  have cap: "available_capacity (heap (fst (poll_commit m w)) (?xs ! i)) = 0"
    using poll_commit_capacity_at [OF assms(1,2), of w] zero by simp
  have "(\<Sum>j<length ?xs. ?c j) = ?c i + (\<Sum>j\<in>{..<length ?xs} - {i}. ?c j)"
    using assms(2) by (intro sum.remove) simp_all
  then have tot: "total_available_capacity (fst (poll_commit m w))
         = (\<Sum>j\<in>{..<length ?xs} - {i}. ?c j)"
    using zero by (simp add: poll_commit_eq)
  have fl: "?xs ! i \<in> set (failures ?xs (available_health w))"
    using assms(2,3) by (rule failures_nth)
  have rec: "?xs ! i \<in> set (snd (poll_commit m w))"
    using fl by (simp add: poll_commit_eq)
  have rec': "?xs ! i \<in> set (snd (poll_phase m w))"
    using fl by (simp add: poll_phase_eq)
  have st: "status (heap (fst (poll_commit m w)) (?xs ! i)) = status (heap m (?xs ! i))"
    by (simp add: poll_commit_eq poll_available_static)
  have st': "status (heap (fst (poll_phase m w)) (?xs ! i)) = status (heap m (?xs ! i))"
    by (rule poll_phase_static)
  have cap': "available_capacity (heap (fst (poll_phase m w)) (?xs ! i)) = 0"
    if "distinct (?xs @ standby_servers m)"
    using poll_phase_capacity_at [OF that assms(2), of w] zero by simp
  from cap tot rec rec' st st' cap' show ?thesis by blast
qed

text \<open>
  A pass in which the only available server and the only standby server both fail
  their poll: the status of the available one stays \<open>RUNNING\<close>, and the standby one
  is recalled with the capacity 5 it had before, which is added to the aggregate.
\<close>

lemma silent_cycle:
  "cycle silent_pair silence =
     silent_pair\<lparr>available_servers := [0, 1], standby_servers := [],
       total_available_capacity := 5,
       heap := (example_heap [3, 5])(0 := example_server ''i-0'' 1 False,
                 1 := example_server ''i-1'' 1 False),
       trace := [Upscale, Sleep 30]\<rparr>"
  by (simp add: cycle_def poll_phase_def poll_commit_def scale_phase_def evict_phase_def
      sleep_def example_manager_def example_world_def responses_def example_heap_def
      example_server_def silent_pair_def silence_def Let_def fun_upd_twist)

theorem failed_poll_counterexample:
  "\<not> poll_ok (available_health silence 0)
   \<and> \<not> poll_ok (standby_health silence 0)
   \<and> status (heap (fst (poll_phase silent_pair silence)) 0) = ''RUNNING''
   \<and> status (heap (fst (poll_phase silent_pair silence)) 0) \<noteq> ''Unresponsive''
   \<and> status (heap (cycle silent_pair silence) 0) \<noteq> ''Unresponsive''
   \<and> total_available_capacity (fst (poll_phase silent_pair silence)) = 0
   \<and> total_available_capacity
        (scale_phase (fst (poll_phase silent_pair silence)) (provisioning silence)) = 5
   \<and> total_available_capacity (cycle silent_pair silence) = 5"
  unfolding silent_cycle
  by (simp add: poll_phase_def poll_commit_def scale_phase_def
      example_manager_def example_world_def responses_def example_heap_def
      example_server_def silent_pair_def silence_def Let_def)

theorem failed_poll_of_available_server_witness:
  "distinct (available_servers silent_pair)
   \<and> 0 < length (available_servers silent_pair)
   \<and> \<not> poll_ok (available_health silence 0)
   \<and> distinct (available_servers silent_pair @ standby_servers silent_pair)
   \<and> available_capacity
        (heap (fst (poll_commit silent_pair silence)) (available_servers silent_pair ! 0)) = 0
   \<and> available_servers silent_pair ! 0 \<in> set (snd (poll_phase silent_pair silence))
   \<and> status (heap (fst (poll_phase silent_pair silence)) (available_servers silent_pair ! 0))
        = status (heap silent_pair (available_servers silent_pair ! 0))
   \<and> available_capacity
        (heap (fst (poll_phase silent_pair silence)) (available_servers silent_pair ! 0)) = 0"
proof -
  have h: "distinct (available_servers silent_pair)"
    "0 < length (available_servers silent_pair)"
    "\<not> poll_ok (available_health silence 0)"
    "distinct (available_servers silent_pair @ standby_servers silent_pair)"
    by (simp_all add: silent_pair_def silence_def example_manager_def example_world_def
        responses_def)
  from failed_poll_of_available_server [OF h(1,2,3)] h show ?thesis by blast
qed

section \<open>The re-poll after the sleep\<close>

lemma grace_Cons:
  "grace (r # rs) env t m = grace rs (\<lambda>i. env (Suc i)) t (recheck r (env 0) m)"
proof (cases "update_state (heap m r) (env 0)")
  case (Pair s ok)
  then have ok: "ok = poll_ok (env 0)" and s: "s = fst (update_state (heap m r) (env 0))"
    using update_state_ok [of "heap m r" "env 0"] by simp_all
  have id: "ec2_id s = ec2_id (heap m r)" by (simp add: s)
  show ?thesis
    by (simp add: Pair Let_def ok recheck_def remove_server_def id)
qed

lemma cycle_eq:
  "cycle m w =
     grace (snd (poll_phase m w)) (recheck_health w) (terminate_ec2 w) (before_recheck m w)"
  by (cases "poll_phase m w") (simp add: cycle_def before_recheck_def)

lemma filter_absent: "r \<notin> set xs \<Longrightarrow> filter (\<lambda>q. q \<noteq> r) xs = xs"
  by (induction xs) auto

lemma remove1_filter: "distinct xs \<Longrightarrow> remove1 r xs = filter (\<lambda>q. q \<noteq> r) xs"
  by (induction xs) (auto simp: filter_absent)

lemma recheck_pools:
  assumes "distinct (available_servers m @ standby_servers m)"
  shows "available_servers (recheck r x m)
     = (if poll_ok x then available_servers m
        else filter (\<lambda>q. q \<noteq> r) (available_servers m))"
    and "standby_servers (recheck r x m)
     = (if poll_ok x then standby_servers m
        else filter (\<lambda>q. q \<noteq> r) (standby_servers m))"
proof -
  from assms have da: "distinct (available_servers m)" and ds: "distinct (standby_servers m)"
    and disj: "set (available_servers m) \<inter> set (standby_servers m) = {}"
    by simp_all
  show "available_servers (recheck r x m)
     = (if poll_ok x then available_servers m
        else filter (\<lambda>q. q \<noteq> r) (available_servers m))"
    by (simp add: recheck_def remove1_filter [OF da] filter_absent)
  show "standby_servers (recheck r x m)
     = (if poll_ok x then standby_servers m
        else filter (\<lambda>q. q \<noteq> r) (standby_servers m))"
  proof (cases "r \<in> set (available_servers m)")
    case True
    with disj have "r \<notin> set (standby_servers m)" by blast
    with True show ?thesis by (simp add: recheck_def filter_absent)
  next
    case False
    then show ?thesis by (simp add: recheck_def remove1_filter [OF ds] filter_absent)
  qed
qed

lemma distinct_filter_pools:
  "distinct (xs @ ys) \<Longrightarrow> distinct (filter P xs @ filter P ys)"
  by auto

lemma grace_pools:
  "distinct (available_servers m @ standby_servers m) \<Longrightarrow>
     available_servers (grace us env t m)
       = filter (\<lambda>q. q \<notin> set (failures us env)) (available_servers m)
     \<and> standby_servers (grace us env t m)
       = filter (\<lambda>q. q \<notin> set (failures us env)) (standby_servers m)"
proof (induction us arbitrary: env m)
  case Nil
  show ?case by simp
next
  case (Cons r rs)
  let ?m1 = "recheck r (env 0) m"
  note rp = recheck_pools [OF Cons.prems, of r "env 0"]
  have d1: "distinct (available_servers ?m1 @ standby_servers ?m1)"
    unfolding rp using Cons.prems by auto
  show ?case
    unfolding grace_Cons
    using Cons.IH [OF d1, of "\<lambda>i. env (Suc i)"]
    by (simp add: rp)
qed

lemma recheck_frame [simp]:
  "total_available_capacity (recheck r x m) = total_available_capacity m"
  "next_ref (recheck r x m) = next_ref m"
  "upscale_margin (recheck r x m) = upscale_margin m"
  "downscale_margin (recheck r x m) = downscale_margin m"
  "thread_sleep_time (recheck r x m) = thread_sleep_time m"
  "heap (recheck r x m) = (heap m)(r := fst (update_state (heap m r) x))"
  "trace (recheck r x m)
     = trace m @ (if poll_ok x then [] else [Terminate_ec2 (ec2_id (heap m r))])"
  by (simp_all add: recheck_def)

lemma grace_frame:
  "total_available_capacity (grace us env t m) = total_available_capacity m
   \<and> next_ref (grace us env t m) = next_ref m
   \<and> upscale_margin (grace us env t m) = upscale_margin m
   \<and> downscale_margin (grace us env t m) = downscale_margin m
   \<and> thread_sleep_time (grace us env t m) = thread_sleep_time m"
proof (induction us arbitrary: env m)
  case Nil
  show ?case by simp
next
  case (Cons r rs)
  show ?case unfolding grace_Cons by (simp add: Cons.IH)
qed

lemma grace_static:
  "status (heap (grace us env t m) q) = status (heap m q)
   \<and> ec2_id (heap (grace us env t m) q) = ec2_id (heap m q)"
proof (induction us arbitrary: env m)
  case Nil
  show ?case by simp
next
  case (Cons r rs)
  show ?case unfolding grace_Cons by (simp add: Cons.IH)
qed




section \<open>The pools hold distinct objects\<close>

lemma poll_phase_fields [simp]:
  "available_servers (fst (poll_phase m w)) = available_servers m"
  "standby_servers (fst (poll_phase m w)) = standby_servers m"
  "next_ref (fst (poll_phase m w)) = next_ref m"
  "trace (fst (poll_phase m w)) = trace m"
  "upscale_margin (fst (poll_phase m w)) = upscale_margin m"
  "downscale_margin (fst (poll_phase m w)) = downscale_margin m"
  "thread_sleep_time (fst (poll_phase m w)) = thread_sleep_time m"
  by (simp_all add: poll_phase_eq poll_commit_eq)

lemma pools_wf_poll_phase: "pools_wf (fst (poll_phase m w)) = pools_wf m"
  by (simp add: pools_wf_def)


lemma pools_wf_scale_phase:
  assumes "pools_wf m"
  shows "pools_wf (scale_phase m p)"
proof -
  let ?xs = "available_servers m"
  let ?i = "get_available_server_index m"
  have idx: "get_available_server_index (m\<lparr>trace := t\<rparr>) = ?i" for t
    by (simp add: get_available_server_index_def)
  have down: "pools_wf (m\<lparr>trace := t, available_servers := take ?i ?xs @ drop (Suc ?i) ?xs,
         total_available_capacity := n,
         standby_servers := standby_servers m @ [?xs ! ?i]\<rparr>)"
    if "length ?xs > 1" for t n
  proof -
    from that have ne: "?xs \<noteq> []" by auto
    have split: "?xs = take ?i ?xs @ ?xs ! ?i # drop (Suc ?i) ?xs"
      using index_less [OF ne] by (simp add: id_take_nth_drop)
    have "distinct ((take ?i ?xs @ ?xs ! ?i # drop (Suc ?i) ?xs) @ standby_servers m)"
      and "list_all (\<lambda>r. r < next_ref m)
             ((take ?i ?xs @ ?xs ! ?i # drop (Suc ?i) ?xs) @ standby_servers m)"
      using assms split by (simp_all add: pools_wf_def)
    then show ?thesis by (auto simp: pools_wf_def)
  qed
  have fresh: "next_ref m \<notin> set (?xs @ standby_servers m)"
    using assms by (auto simp: pools_wf_def list_all_iff)
  have bound: "list_all (\<lambda>r. r < Suc (next_ref m)) (?xs @ standby_servers m)"
    using assms by (auto simp: pools_wf_def list_all_iff less_Suc_eq)
  show ?thesis
    using assms down fresh bound
    by (auto simp: scale_phase_def Let_def add_server_def idx pools_wf_def
        split: list.splits provision.splits option.splits)
qed

lemma pools_wf_evict_phase: "pools_wf m \<Longrightarrow> pools_wf (evict_phase m t)"
  by (auto simp: pools_wf_def evict_phase_eq list_all_iff)

lemma pools_wf_sleep: "pools_wf (sleep m) = pools_wf m"
  by (simp add: pools_wf_def sleep_def)

lemma pools_wf_before_recheck: "pools_wf m \<Longrightarrow> pools_wf (before_recheck m w)"
  by (simp add: before_recheck_def pools_wf_sleep pools_wf_evict_phase pools_wf_scale_phase pools_wf_poll_phase)

lemma pools_wf_grace:
  assumes "pools_wf m"
  shows "pools_wf (grace us env t m)"
proof -
  from assms have d: "distinct (available_servers m @ standby_servers m)"
    by (simp add: pools_wf_def)
  show ?thesis
    using assms grace_pools [OF d, of us env t] grace_frame [of us env t m]
    by (auto simp: pools_wf_def list_all_iff)
qed

lemma pools_wf_cycle: "pools_wf m \<Longrightarrow> pools_wf (cycle m w)"
  by (simp add: cycle_eq pools_wf_grace pools_wf_before_recheck)

lemma pools_wf_get_available_server:
  "pools_wf m \<Longrightarrow> get_available_server m = Inr (m', r) \<Longrightarrow> pools_wf m'"
  by (auto simp: get_available_server_def Let_def pools_wf_def split: if_splits)








lemma flaky_cycle:
  "cycle flaky_fleet flaky_world =
     flaky_fleet\<lparr>available_servers := [1, 2], standby_servers := [],
       total_available_capacity := 4,
       heap := (example_heap [4, 4, 4])(0 := example_server ''i-0'' 0 False,
                 1 := example_server ''i-1'' 3 False,
                 2 := example_server ''i-2'' 4 False),
       trace := [Upscale, Sleep 30, Terminate_ec2 ''i-0'']\<rparr>"
  by (simp add: cycle_def poll_phase_def poll_commit_def scale_phase_def evict_phase_def
      sleep_def remove_server_def example_manager_def example_world_def responses_def
      example_heap_def example_server_def flaky_fleet_def flaky_world_def Let_def
      fun_upd_twist)


section \<open>Capacities that are not negative\<close>

lemma update_state_nonneg:
  "nonneg_health x \<Longrightarrow> 0 \<le> available_capacity s \<Longrightarrow>
     0 \<le> available_capacity (fst (update_state s x))"
  by (cases "(s, x)" rule: update_state.cases) simp_all

lemma contribution_nonneg: "nonneg_health x \<Longrightarrow> 0 \<le> contribution x"
  by (cases x rule: contribution.cases) simp_all

lemma poll_available_nonneg:
  "(\<forall>i. nonneg_health (env i)) \<Longrightarrow> 0 \<le> available_capacity (h q) \<Longrightarrow>
     0 \<le> available_capacity (fst (poll_available rs env h n us) q)"
proof (induction rs arbitrary: env h n us)
  case Nil
  then show ?case by simp
next
  case (Cons r rs)
  from Cons.prems have e: "\<forall>i. nonneg_health (env (Suc i))" and e0: "nonneg_health (env 0)"
    by simp_all
  have "0 \<le> available_capacity ((h(r := polled (h r) (env 0))) q)"
    using Cons.prems(2) contribution_nonneg [OF e0] by simp
  with e show ?case
    unfolding poll_available_Cons
    by (intro Cons.IH [of "\<lambda>i. env (Suc i)" "h(r := polled (h r) (env 0))"])
qed

lemma poll_standby_nonneg:
  "(\<forall>i. nonneg_health (env i)) \<Longrightarrow> 0 \<le> available_capacity (h q) \<Longrightarrow>
     0 \<le> available_capacity (fst (poll_standby rs env h us) q)"
proof (induction rs arbitrary: env h us)
  case Nil
  then show ?case by simp
next
  case (Cons r rs)
  from Cons.prems have e: "\<forall>i. nonneg_health (env (Suc i))" and e0: "nonneg_health (env 0)"
    by simp_all
  have "0 \<le> available_capacity ((h(r := fst (update_state (h r) (env 0)))) q)"
    using Cons.prems(2) update_state_nonneg [OF e0] by auto
  with e show ?case
    unfolding poll_standby_Cons
    by (intro Cons.IH [of "\<lambda>i. env (Suc i)" "h(r := fst (update_state (h r) (env 0)))"])
qed

lemma poll_phase_nonneg:
  assumes "nonneg_world w" and "0 \<le> available_capacity (heap m q)"
  shows "0 \<le> available_capacity (heap (fst (poll_phase m w)) q)"
proof -
  from assms(1) have a: "\<forall>i. nonneg_health (available_health w i)"
    and s: "\<forall>i. nonneg_health (standby_health w i)"
    by (simp_all add: nonneg_world_def)
  show ?thesis
    by (simp add: poll_phase_eq poll_commit_eq poll_standby_nonneg [OF s]
        poll_available_nonneg [OF a] assms(2))
qed

lemma nonneg_poll_phase:
  "nonneg_world w \<Longrightarrow> nonneg_pools m \<Longrightarrow> nonneg_pools (fst (poll_phase m w))"
  by (simp add: nonneg_pools_def list_all_iff poll_phase_nonneg)

lemma nonneg_scale_phase:
  assumes "nonneg_pools m"
  shows "nonneg_pools (scale_phase m p)"
proof -
  let ?xs = "available_servers m"
  let ?i = "get_available_server_index m"
  have idx: "get_available_server_index (m\<lparr>trace := t\<rparr>) = ?i" for t
    by (simp add: get_available_server_index_def)
  have down: "nonneg_pools (m\<lparr>trace := t, available_servers := take ?i ?xs @ drop (Suc ?i) ?xs,
         total_available_capacity := n,
         standby_servers := standby_servers m @ [?xs ! ?i]\<rparr>)"
    if "length ?xs > 1" for t n
  proof -
    from that have ne: "?xs \<noteq> []" by auto
    have "?xs ! ?i \<in> set ?xs" using index_less [OF ne] by (rule nth_mem)
    moreover have "set (take ?i ?xs) \<subseteq> set ?xs" "set (drop (Suc ?i) ?xs) \<subseteq> set ?xs"
      by (rule set_take_subset, rule set_drop_subset)
    ultimately show ?thesis
      using assms by (auto simp: nonneg_pools_def list_all_iff)
  qed
  show ?thesis
    using assms down
    by (auto simp: scale_phase_def Let_def add_server_def Server_init_def idx
        nonneg_pools_def list_all_iff
        split: list.splits provision.splits option.splits aws_lookup.splits)
qed

lemma nonneg_evict_phase: "nonneg_pools m \<Longrightarrow> nonneg_pools (evict_phase m t)"
  by (auto simp: nonneg_pools_def evict_phase_eq list_all_iff)

lemma nonneg_sleep: "nonneg_pools (sleep m) = nonneg_pools m"
  by (simp add: nonneg_pools_def sleep_def)

lemma nonneg_recheck:
  assumes "nonneg_health x" and "nonneg_pools m"
  shows "nonneg_pools (recheck r x m)"
proof -
  have "set (remove1 r xs) \<subseteq> set xs" for xs :: "ref list"
    by (rule set_remove1_subset)
  then show ?thesis
    using assms(2) update_state_nonneg [OF assms(1)]
    by (auto simp: nonneg_pools_def recheck_def list_all_iff dest: notin_set_remove1)
qed

lemma nonneg_grace:
  "(\<forall>i. nonneg_health (env i)) \<Longrightarrow> nonneg_pools m \<Longrightarrow> nonneg_pools (grace us env t m)"
proof (induction us arbitrary: env m)
  case Nil
  then show ?case by simp
next
  case (Cons r rs)
  from Cons.prems have e: "\<forall>i. nonneg_health (env (Suc i))" and e0: "nonneg_health (env 0)"
    by simp_all
  from e nonneg_recheck [OF e0 Cons.prems(2)] show ?case
    unfolding grace_Cons
    by (intro Cons.IH [of "\<lambda>i. env (Suc i)" "recheck r (env 0) m"])
qed

lemma nonneg_cycle:
  assumes "nonneg_world w" and "nonneg_pools m"
  shows "nonneg_pools (cycle m w)"
proof -
  from assms(1) have r: "\<forall>i. nonneg_health (recheck_health w i)"
    by (simp add: nonneg_world_def)
  have "nonneg_pools (before_recheck m w)"
    by (simp add: before_recheck_def nonneg_sleep nonneg_evict_phase nonneg_scale_phase
        nonneg_poll_phase [OF assms])
  then show ?thesis unfolding cycle_eq by (rule nonneg_grace [OF r])
qed

lemma nonneg_run:
  "(\<forall>k. nonneg_world (ws k)) \<Longrightarrow> nonneg_pools m \<Longrightarrow> nonneg_pools (run n ws m)"
proof (induction n arbitrary: ws m)
  case 0
  then show ?case by simp
next
  case (Suc n)
  from Suc.prems have "\<forall>k. nonneg_world (ws (Suc k))" and "nonneg_world (ws 0)"
    by simp_all
  then show ?case using Suc.IH Suc.prems(2) by (simp add: nonneg_cycle)
qed

lemma nonneg_get_available_server:
  assumes "nonneg_pools m" and "get_available_server m = Inr (m', r)"
  shows "r \<in> set (available_servers m)
     \<and> available_capacity (heap m' r) = available_capacity (heap m r) - 1
     \<and> (nonneg_pools m' \<longleftrightarrow> 0 < available_capacity (heap m r))"
proof -
  let ?i = "get_available_server_index m"
  from assms(2) have lt: "?i < length (available_servers m)"
    and r: "r = available_servers m ! ?i"
    and m': "m' = m\<lparr>heap := (heap m)(r := (heap m r)
                 \<lparr>available_capacity := available_capacity (heap m r) - 1\<rparr>)\<rparr>"
    by (auto simp: get_available_server_def Let_def split: if_splits)
  have mem: "r \<in> set (available_servers m)" unfolding r using lt by (rule nth_mem)
  have "nonneg_pools m' \<longleftrightarrow> 0 \<le> available_capacity (heap m r) - 1"
    using assms(1) mem unfolding m' by (auto simp: nonneg_pools_def list_all_iff)
  then show ?thesis using mem unfolding m' by auto
qed

lemma index_positive:
  assumes "\<exists>q\<in>set (available_servers m). 0 < available_capacity (heap m q)"
  shows "0 < available_capacity
           (heap m (available_servers m ! get_available_server_index m))"
proof -
  from assms obtain k where k: "k < length (available_servers m)"
    "0 < available_capacity (heap m (available_servers m ! k))"
    by (auto simp: in_set_conv_nth)
  then have ne: "available_servers m \<noteq> []" by auto
  from index_greatest [OF ne k(1)] k(2) show ?thesis by simp
qed

text \<open>
  C8. A constructed \<open>Server\<close> has capacity 0. A poll whose response reports no negative
  capacity leaves a capacity that is not negative. So, when the responses report no
  negative capacity, a pass (and any number of passes) keeps the capacity of every
  server in either pool at 0 or above. \<open>get_available_server\<close> lowers the capacity of
  the server it returns by one without a test: it keeps all capacities at 0 or above
  exactly if the capacity of the returned server was positive, which is so as soon as
  some available server has a positive capacity.
\<close>

theorem capacity_stays_nonnegative:
  "(\<forall>s. Server_init arn l = Some s \<longrightarrow> available_capacity s = 0)
   \<and> (nonneg_health x \<and> 0 \<le> available_capacity s0
        \<longrightarrow> 0 \<le> available_capacity (fst (update_state s0 x)))
   \<and> (nonneg_world w \<and> nonneg_pools m \<longrightarrow> nonneg_pools (cycle m w))
   \<and> ((\<forall>k. nonneg_world (ws k)) \<and> nonneg_pools m \<longrightarrow> nonneg_pools (run n ws m))
   \<and> (\<forall>m' r. nonneg_pools m \<and> get_available_server m = Inr (m', r) \<longrightarrow>
          available_capacity (heap m' r) = available_capacity (heap m r) - 1
          \<and> (nonneg_pools m' \<longleftrightarrow> 0 < available_capacity (heap m r)))
   \<and> (\<forall>m' r. nonneg_pools m \<and> get_available_server m = Inr (m', r)
          \<and> (\<exists>q\<in>set (available_servers m). 0 < available_capacity (heap m q))
          \<longrightarrow> nonneg_pools m')"
proof -
  have init: "\<forall>s. Server_init arn l = Some s \<longrightarrow> available_capacity s = 0"
    by (auto simp: Server_init_def split: aws_lookup.splits)
  have upd: "nonneg_health x \<and> 0 \<le> available_capacity s0
        \<longrightarrow> 0 \<le> available_capacity (fst (update_state s0 x))"
    using update_state_nonneg by blast
  have pass: "nonneg_world w \<and> nonneg_pools m \<longrightarrow> nonneg_pools (cycle m w)"
    using nonneg_cycle by blast
  have passes: "(\<forall>k. nonneg_world (ws k)) \<and> nonneg_pools m \<longrightarrow> nonneg_pools (run n ws m)"
    using nonneg_run by blast
  have alloc: "\<forall>m' r. nonneg_pools m \<and> get_available_server m = Inr (m', r) \<longrightarrow>
          available_capacity (heap m' r) = available_capacity (heap m r) - 1
          \<and> (nonneg_pools m' \<longleftrightarrow> 0 < available_capacity (heap m r))"
    using nonneg_get_available_server by blast
  have positive: "nonneg_pools m'"
    if n: "nonneg_pools m" and g: "get_available_server m = Inr (m', r)"
      and q: "\<exists>q\<in>set (available_servers m). 0 < available_capacity (heap m q)"
    for m' r
  proof -
    from g have "r = available_servers m ! get_available_server_index m"
      by (auto simp: get_available_server_def Let_def split: if_splits)
    with index_positive [OF q] have "0 < available_capacity (heap m r)" by simp
    with nonneg_get_available_server [OF n g] show ?thesis by simp
  qed
  from init upd pass passes alloc positive show ?thesis by blast
qed

lemma nonneg_responses: "list_all nonneg_health hs \<Longrightarrow> nonneg_health (responses hs i)"
  by (simp add: responses_def list_all_length)

lemma nonneg_example_world:
  "list_all nonneg_health ha \<Longrightarrow> list_all nonneg_health hs \<Longrightarrow> list_all nonneg_health hr
     \<Longrightarrow> nonneg_world (example_world ha hs hr p)"
  by (simp add: nonneg_world_def example_world_def nonneg_responses)

text \<open>
  One available server that has not been polled yet, so that its capacity is the 0 of
  the constructor: the allocation leaves it at \<open>-1\<close>.
\<close>

lemma idle_allocation:
  "get_available_server idle_server
     = Inr (idle_server\<lparr>heap := (heap idle_server)(0 := example_server ''i-0'' (- 1) False)\<rparr>, 0)"
  by (simp add: get_available_server_def get_available_server_index_def Let_def
      idle_server_def example_manager_def example_heap_def example_server_def)

theorem capacity_negative_counterexample:
  "nonneg_pools idle_server
   \<and> available_capacity (heap idle_server 0) = 0
   \<and> get_available_server idle_server
       = Inr (idle_server\<lparr>heap := (heap idle_server)(0 := example_server ''i-0'' (- 1) False)\<rparr>, 0)
   \<and> available_capacity
        (heap (idle_server\<lparr>heap := (heap idle_server)(0 := example_server ''i-0'' (- 1) False)\<rparr>) 0)
       = - 1
   \<and> \<not> nonneg_pools
          (idle_server\<lparr>heap := (heap idle_server)(0 := example_server ''i-0'' (- 1) False)\<rparr>)"
  unfolding idle_allocation
  by (simp add: nonneg_pools_def idle_server_def example_manager_def example_heap_def
      example_server_def)

lemma flaky_allocation:
  "get_available_server flaky_fleet
     = Inr (flaky_fleet\<lparr>heap := (heap flaky_fleet)(0 := example_server ''i-0'' 3 False)\<rparr>, 0)"
  by (simp add: get_available_server_def get_available_server_index_def scan_step_def Let_def
      flaky_fleet_def example_manager_def example_heap_def example_server_def)

theorem capacity_stays_nonnegative_witness:
  "nonneg_world flaky_world
   \<and> nonneg_pools flaky_fleet
   \<and> nonneg_pools (cycle flaky_fleet flaky_world)
   \<and> nonneg_pools (run 2 (\<lambda>k. flaky_world) flaky_fleet)
   \<and> nonneg_health (Report (Some False) (Some 3))
   \<and> 0 \<le> available_capacity (example_server ''i-1'' 0 False)
   \<and> 0 \<le> available_capacity
            (fst (update_state (example_server ''i-1'' 0 False) (Report (Some False) (Some 3))))
   \<and> (\<exists>q\<in>set (available_servers flaky_fleet). 0 < available_capacity (heap flaky_fleet q))
   \<and> get_available_server flaky_fleet
       = Inr (flaky_fleet\<lparr>heap := (heap flaky_fleet)(0 := example_server ''i-0'' 3 False)\<rparr>, 0)
   \<and> nonneg_pools
        (flaky_fleet\<lparr>heap := (heap flaky_fleet)(0 := example_server ''i-0'' 3 False)\<rparr>)"
proof -
  have w: "nonneg_world flaky_world"
    unfolding flaky_world_def by (rule nonneg_example_world) simp_all
  have ws: "\<forall>k. nonneg_world ((\<lambda>k. flaky_world) k)" using w by simp
  have p: "nonneg_pools flaky_fleet"
    by (simp add: nonneg_pools_def flaky_fleet_def example_manager_def example_heap_def
        example_server_def)
  have h: "nonneg_health (Report (Some False) (Some 3))"
    "0 \<le> available_capacity (example_server ''i-1'' 0 False)"
    by (simp_all add: example_server_def)
  have q: "\<exists>q\<in>set (available_servers flaky_fleet). 0 < available_capacity (heap flaky_fleet q)"
    by (simp add: flaky_fleet_def example_manager_def example_heap_def example_server_def)
  note t = capacity_stays_nonnegative [of "''arn''" Lookup_error
      "Report (Some False) (Some 3)" "example_server ''i-1'' 0 False"
      flaky_world flaky_fleet "\<lambda>k. flaky_world" 2]
  from t w p have c: "nonneg_pools (cycle flaky_fleet flaky_world)" by blast
  from t ws p have r: "nonneg_pools (run 2 (\<lambda>k. flaky_world) flaky_fleet)" by blast
  from t h have u: "0 \<le> available_capacity
            (fst (update_state (example_server ''i-1'' 0 False) (Report (Some False) (Some 3))))"
    by blast
  from t p q flaky_allocation
  have a: "nonneg_pools
        (flaky_fleet\<lparr>heap := (heap flaky_fleet)(0 := example_server ''i-0'' 3 False)\<rparr>)"
    by blast
  from w p c r h u q flaky_allocation a show ?thesis by blast
qed

end
